theory Spec2Isabelle
  imports Complex_Main "HOL-Library.Word"
begin

section \<open>JavaScript strings\<close>

text \<open>
  A JavaScript string is a sequence of UTF-16 code units; \<open>length\<close>, \<open>trim\<close>, \<open>split\<close>
  and the regular expressions of the sources (none has the \<open>u\<close> flag) all work on code
  units. \<open>js\<close> turns an ASCII literal into such a string.
\<close>

type_synonym codeUnit = "16 word"
type_synonym jsstring = "codeUnit list"

definition js :: "string \<Rightarrow> jsstring" where
  "js s = map of_char s"

text \<open>
  The characters removed by \<open>String.prototype.trim\<close> and matched by \<open>\s\<close>: the
  ECMAScript WhiteSpace and LineTerminator code points.
\<close>

definition isWhiteSpace :: "codeUnit \<Rightarrow> bool" where
  "isWhiteSpace c \<longleftrightarrow>
     c = 0x09 \<or> c = 0x0A \<or> c = 0x0B \<or> c = 0x0C \<or> c = 0x0D \<or> c = 0x20 \<or> c = 0xA0
     \<or> c = 0x1680 \<or> (0x2000 \<le> c \<and> c \<le> 0x200A) \<or> c = 0x2028 \<or> c = 0x2029
     \<or> c = 0x202F \<or> c = 0x205F \<or> c = 0x3000 \<or> c = 0xFEFF"

definition trim :: "jsstring \<Rightarrow> jsstring" where
  "trim s = rev (dropWhile isWhiteSpace (rev (dropWhile isWhiteSpace s)))"

text \<open>
  \<open>String.prototype.toLowerCase\<close>, code unit by code unit. It is exact on ASCII and on the
  two code points outside ASCII whose lower case contains an ASCII letter (U+0130 and the
  Kelvin sign U+212A). Every other cased letter maps to a letter outside ASCII; it is left
  in place here, since no pattern of the program tells letters outside ASCII apart.
\<close>

definition lowerUnit :: "codeUnit \<Rightarrow> jsstring" where
  "lowerUnit c =
     (if 0x41 \<le> c \<and> c \<le> 0x5A then [c + 0x20]
      else if c = 0x130 then [0x69, 0x307]
      else if c = 0x212A then [0x6B]
      else [c])"

definition toLowerCase :: "jsstring \<Rightarrow> jsstring" where
  "toLowerCase s = concat (map lowerUnit s)"

fun startsWith :: "jsstring \<Rightarrow> jsstring \<Rightarrow> bool" where
  "startsWith s [] = True"
| "startsWith [] (p # ps) = False"
| "startsWith (c # cs) (p # ps) = (c = p \<and> startsWith cs ps)"

fun includesStr :: "jsstring \<Rightarrow> jsstring \<Rightarrow> bool" where
  "includesStr [] p = (p = [])"
| "includesStr (c # cs) p = (startsWith (c # cs) p \<or> includesStr cs p)"

section \<open>dataProcessor.ts: normalisation\<close>

text \<open>
  \<open>replace(/\([^)]*\)/g, '')\<close>: at each \<open>(\<close> that has a \<open>)\<close> somewhere after it, the
  match runs to the first such \<open>)\<close> and is deleted; a \<open>(\<close> with no \<open>)\<close> after it stays.
  The flag says whether the scan is inside a match.
\<close>

fun scanParens :: "bool \<Rightarrow> jsstring \<Rightarrow> jsstring" where
  "scanParens inside [] = []"
| "scanParens True (c # cs) = (if c = 0x29 then scanParens False cs else scanParens True cs)"
| "scanParens False (c # cs) =
     (if c = 0x28 \<and> 0x29 \<in> set cs then scanParens True cs else c # scanParens False cs)"

definition removeParens :: "jsstring \<Rightarrow> jsstring" where
  "removeParens s = scanParens False s"

definition isTrailingPunct :: "codeUnit \<Rightarrow> bool" where
  "isTrailingPunct c \<longleftrightarrow> c = 0x2C \<or> c = 0x3B \<or> c = 0x3A \<or> c = 0x2E"

text \<open>\<open>replace(/[,;:\.]+$/, '')\<close>: the run of these characters that ends the string.\<close>

definition stripTrailingPunct :: "jsstring \<Rightarrow> jsstring" where
  "stripTrailingPunct s = rev (dropWhile isTrailingPunct (rev s))"

text \<open>\<open>replace(/\s+/g, ' ')\<close>: every maximal run of white space becomes one space.\<close>

function collapseSpaces :: "jsstring \<Rightarrow> jsstring" where
  "collapseSpaces [] = []"
| "collapseSpaces (c # cs) =
     (if isWhiteSpace c then 0x20 # collapseSpaces (dropWhile isWhiteSpace cs)
      else c # collapseSpaces cs)"
  by pat_completeness auto
termination
  by (relation "measure length") (auto simp: le_imp_less_Suc length_dropWhile_le)

definition normalizeVillainName :: "jsstring \<Rightarrow> jsstring" where
  "normalizeVillainName name =
     (let normalized = trim name;
          normalized = trim (removeParens normalized);
          normalized = trim (stripTrailingPunct normalized);
          normalized = collapseSpaces normalized
      in normalized)"

definition isLowerAlnum :: "codeUnit \<Rightarrow> bool" where
  "isLowerAlnum c \<longleftrightarrow> (0x61 \<le> c \<and> c \<le> 0x7A) \<or> (0x30 \<le> c \<and> c \<le> 0x39)"

text \<open>\<open>replace(/[^a-z0-9]+/g, '-')\<close>.\<close>

function dashRuns :: "jsstring \<Rightarrow> jsstring" where
  "dashRuns [] = []"
| "dashRuns (c # cs) =
     (if isLowerAlnum c then c # dashRuns cs
      else 0x2D # dashRuns (dropWhile (\<lambda>x. \<not> isLowerAlnum x) cs))"
  by pat_completeness auto
termination
  by (relation "measure length") (auto simp: le_imp_less_Suc length_dropWhile_le)

text \<open>\<open>replace(/^-|-$/g, '')\<close>: one dash at the start and one dash at the end.\<close>

definition stripEdgeDashes :: "jsstring \<Rightarrow> jsstring" where
  "stripEdgeDashes s =
     (let s1 = (case s of [] \<Rightarrow> [] | c # cs \<Rightarrow> if c = 0x2D then cs else s)
      in if s1 \<noteq> [] \<and> last s1 = 0x2D then butlast s1 else s1)"

definition generateVillainId :: "jsstring \<Rightarrow> jsstring" where
  "generateVillainId name = stripEdgeDashes (dashRuns (toLowerCase name))"

section \<open>dataProcessor.ts: the data\<close>

text \<open>
  The interfaces of \<open>types.ts\<close>. \<open>issueNumber\<close> is declared \<open>number\<close>; the declaration
  is erased at run time, so a record read from JSON may lack the property. \<open>None\<close> is
  the value \<open>undefined\<close> that such a record yields; a present number is an integer.
  The optional \<open>publicationDate\<close> and \<open>baseUrl\<close> are never read and are left out.
  Every record is taken to have its array \<open>antagonists\<close>, as every record that the
  scraper builds has; the names in it are strings.
\<close>

type_synonym issueKey = "int option"

record issueData =
  issueNumber :: issueKey
  title :: jsstring
  antagonists :: "jsstring list"

record processedVillain =
  villainId :: jsstring
  names :: "jsstring list"
  firstAppearance :: issueKey
  appearances :: "issueKey list"
  frequency :: nat

record timelineData =
  issue :: issueKey
  villainsInIssue :: "processedVillain list"
  villainCount :: nat

text \<open>
  The result of a JavaScript division of non-negative integers: \<open>0 / 0\<close> is \<open>NaN\<close> and
  \<open>n / 0\<close> is \<open>Infinity\<close>; nothing is raised. \<open>Finite q\<close> stands for the double
  nearest to the rational \<open>q\<close>, which is what a division returns for the quotient \<open>q\<close>.
\<close>

datatype jsnumber = Finite rat | NaN | PosInfinity

definition jsDivide :: "nat \<Rightarrow> nat \<Rightarrow> jsnumber" where
  "jsDivide a b =
     (if b = 0 then (if a = 0 then NaN else PosInfinity)
      else Finite (of_nat a / of_nat b))"

record villainStats =
  totalVillains :: nat
  mostFrequent :: processedVillain
  averageFrequency :: jsnumber
  firstAppearances :: "(issueKey \<times> jsstring option list) list"

record processedData =
  series :: jsstring
  processedAt :: jsstring
  villains :: "processedVillain list"
  timeline :: "timelineData list"
  stats :: villainStats

text \<open>
  What \<open>processVillainData\<close> can be handed at run time: a falsy value, or an object
  whose \<open>issues\<close> property is an array of records or anything else.
\<close>

datatype rawIssues = IssuesArray "issueData list" | IssuesOther

datatype rawVillainData = Falsy | RawData jsstring rawIssues

datatype error = InvalidRawDataFormat

text \<open>
  \<open>Map<string, ProcessedVillain>\<close> keeps its keys in insertion order: an association list
  to which a new key is appended. An entry is an object that the loop mutates in place.
\<close>

type_synonym villainMap = "(jsstring \<times> processedVillain) list"

definition mutate ::
  "jsstring \<Rightarrow> (processedVillain \<Rightarrow> processedVillain) \<Rightarrow> villainMap \<Rightarrow> villainMap" where
  "mutate k f m = map (\<lambda>(k', v). if k' = k then (k', f v) else (k', v)) m"

section \<open>dataProcessor.ts: processVillainData\<close>

text \<open>The body of the inner loop (lines 76 to 102), for one raw name of one issue.\<close>

definition addName :: "issueKey \<Rightarrow> villainMap \<Rightarrow> jsstring \<Rightarrow> villainMap" where
  "addName n villainMap rawName =
     (if rawName = [] \<or> length (trim rawName) = 0 then villainMap
      else
        let normalized = normalizeVillainName rawName in
        if length normalized = 0 then villainMap
        else
          (case map_of villainMap normalized of
             None \<Rightarrow>
               villainMap @
                 [(normalized,
                   \<lparr>villainId = generateVillainId normalized,
                    names = [normalized],
                    firstAppearance = n,
                    appearances = [n],
                    frequency = 1\<rparr>)]
           | Some villain \<Rightarrow>
               if n \<notin> set (appearances villain) then
                 mutate normalized
                   (\<lambda>v. v\<lparr>appearances := appearances v @ [n], frequency := frequency v + 1\<rparr>)
                   villainMap
               else villainMap))"

definition addIssue :: "villainMap \<Rightarrow> issueData \<Rightarrow> villainMap" where
  "addIssue villainMap i = foldl (addName (issueNumber i)) villainMap (antagonists i)"

definition buildIndex :: "issueData list \<Rightarrow> villainMap" where
  "buildIndex issues = foldl addIssue [] issues"

text \<open>
  \<open>appearances.sort((a, b) => a - b)\<close>: \<open>Array.prototype.sort\<close> moves every \<open>undefined\<close>
  to the end without calling the comparison, and orders the numbers by it.
\<close>

fun present :: "issueKey list \<Rightarrow> int list" where
  "present [] = []"
| "present (None # xs) = present xs"
| "present (Some a # xs) = a # present xs"

definition sortAppearances :: "issueKey list \<Rightarrow> issueKey list" where
  "sortAppearances xs = map Some (sort (present xs)) @ filter (\<lambda>x. x = None) xs"

definition sortAll :: "villainMap \<Rightarrow> villainMap" where
  "sortAll m = map (\<lambda>(k, v). (k, v\<lparr>appearances := sortAppearances (appearances v)\<rparr>)) m"

definition generateTimeline :: "issueData list \<Rightarrow> villainMap \<Rightarrow> timelineData list" where
  "generateTimeline issues villainMap =
     map (\<lambda>i.
            let villainsInIssue =
                  filter (\<lambda>villain. issueNumber i \<in> set (appearances villain))
                    (map snd villainMap)
            in \<lparr>issue = issueNumber i,
                villainsInIssue = villainsInIssue,
                villainCount = length villainsInIssue\<rparr>)
         issues"

definition sentinel :: processedVillain where
  "sentinel =
     \<lparr>villainId = [], names = [], firstAppearance = Some 0, appearances = [], frequency = 0\<rparr>"

text \<open>\<open>names[0]\<close>: \<open>undefined\<close> on an empty array.\<close>

definition first :: "'a list \<Rightarrow> 'a option" where
  "first xs = (case xs of [] \<Rightarrow> None | x # _ \<Rightarrow> Some x)"

text \<open>One step of the loop that fills the \<open>firstAppearances\<close> map (lines 185 to 191).\<close>

definition noteFirst ::
  "(issueKey \<times> jsstring option list) list \<Rightarrow> processedVillain
     \<Rightarrow> (issueKey \<times> jsstring option list) list" where
  "noteFirst fa villain =
     (let i = firstAppearance villain;
          fa = (if map_of fa i = None then fa @ [(i, [])] else fa)
      in map (\<lambda>(k, ns). if k = i then (k, ns @ [first (names villain)]) else (k, ns)) fa)"

text \<open>The callback of \<open>reduce\<close> (lines 173 to 175); \<open>reduce\<close> starts from the first entry.\<close>

definition moreFrequent :: "processedVillain \<Rightarrow> processedVillain \<Rightarrow> processedVillain" where
  "moreFrequent prev current = (if frequency current > frequency prev then current else prev)"

definition generateStats :: "villainMap \<Rightarrow> issueData list \<Rightarrow> villainStats" where
  "generateStats villainMap originalIssues =
     (let villainArray = map snd villainMap;
          mostFrequent =
            (case villainArray of
               [] \<Rightarrow> sentinel
             | v # vs \<Rightarrow>
                 foldl moreFrequent v vs);
          averageFrequency =
            (if length villainArray > 0
             then jsDivide (foldl (\<lambda>sum v. sum + frequency v) 0 villainArray)
                    (length villainArray)
             else Finite 0);
          firstAppearances = foldl noteFirst [] villainArray
      in \<lparr>totalVillains = length villainArray,
          mostFrequent = mostFrequent,
          averageFrequency = averageFrequency,
          firstAppearances = firstAppearances\<rparr>)"

text \<open>
  \<open>now\<close> is the reading of the clock, \<open>new Date().toISOString()\<close>, the only input of
  the function besides its argument.
\<close>

definition processVillainData :: "jsstring \<Rightarrow> rawVillainData \<Rightarrow> error + processedData" where
  "processVillainData now rawData =
     (case rawData of
        Falsy \<Rightarrow> Inl InvalidRawDataFormat
      | RawData s IssuesOther \<Rightarrow> Inl InvalidRawDataFormat
      | RawData s (IssuesArray issues) \<Rightarrow>
          let villainMap = sortAll (buildIndex issues);
              timeline = generateTimeline issues villainMap;
              stats = generateStats villainMap issues
          in Inr \<lparr>series = s,
                  processedAt = now,
                  villains = map snd villainMap,
                  timeline = timeline,
                  stats = stats\<rparr>)"

section \<open>marvelScraper.ts: the parsed page\<close>

text \<open>
  \<open>cheerio.load\<close> parses the page into a tree of elements and text nodes, and the scraper
  reads nothing but tag names (lower case after parsing), the order of the nodes and their
  text. The functions below take the parsed document.
\<close>

datatype node = Text jsstring | Element string "node list"

text \<open>\<open>.text()\<close>: the text nodes below a node, concatenated in document order.\<close>

fun textOf :: "node \<Rightarrow> jsstring" where
  "textOf (Text s) = s"
| "textOf (Element t cs) = concat (map textOf cs)"

fun subtree :: "node \<Rightarrow> node list" where
  "subtree (Text s) = [Text s]"
| "subtree (Element t cs) = Element t cs # concat (map subtree cs)"

definition descendants :: "node \<Rightarrow> node list" where
  "descendants n = (case n of Text s \<Rightarrow> [] | Element t cs \<Rightarrow> concat (map subtree cs))"

definition hasTag :: "string \<Rightarrow> node \<Rightarrow> bool" where
  "hasTag t n = (case n of Text s \<Rightarrow> False | Element t' cs \<Rightarrow> t' = t)"

definition isElement :: "node \<Rightarrow> bool" where
  "isElement n = (case n of Text s \<Rightarrow> False | Element t cs \<Rightarrow> True)"

text \<open>\<open>.find(tag)\<close>: the descendants with that tag, in document order.\<close>

definition findTag :: "string \<Rightarrow> node \<Rightarrow> node list" where
  "findTag t n = filter (hasTag t) (descendants n)"

section \<open>marvelScraper.ts: one list item\<close>

text \<open>The seven glyphs written in the character class of the source.\<close>

definition isNavGlyph :: "codeUnit \<Rightarrow> bool" where
  "isNavGlyph c \<longleftrightarrow>
     c = 0x23F4 \<or> c = 0x25C0 \<or> c = 0x25B6 \<or> c = 0x2192 \<or> c = 0x2190 \<or> c = 0x2191
     \<or> c = 0x2193"

text \<open>A match of \<open>/^[\s...]+$/\<close> with those glyphs: one or more units, all in the class.\<close>

definition navOnly :: "jsstring \<Rightarrow> bool" where
  "navOnly s \<longleftrightarrow> s \<noteq> [] \<and> list_all (\<lambda>c. isWhiteSpace c \<or> isNavGlyph c) s"

text \<open>A match of \<open>/^See/i\<close>.\<close>

fun matchesSee :: "jsstring \<Rightarrow> bool" where
  "matchesSee (a # b # c # s) \<longleftrightarrow>
     (a = 0x53 \<or> a = 0x73) \<and> (b = 0x45 \<or> b = 0x65) \<and> (c = 0x45 \<or> c = 0x65)"
| "matchesSee s \<longleftrightarrow> False"

text \<open>The test of lines 219 to 222 on the trimmed text of a link.\<close>

definition qualifies :: "jsstring \<Rightarrow> bool" where
  "qualifies linkText \<longleftrightarrow>
     linkText \<noteq> [] \<and> length linkText > 1 \<and> \<not> navOnly linkText \<and> \<not> matchesSee linkText"

text \<open>The loop of lines 215 to 226: the first link that passes, else the empty string.\<close>

fun scanLinks :: "node list \<Rightarrow> jsstring" where
  "scanLinks [] = []"
| "scanLinks (l # ls) =
     (let linkText = trim (textOf l)
      in if qualifies linkText then linkText else scanLinks ls)"

definition nameFromLinks :: "node \<Rightarrow> jsstring" where
  "nameFromLinks li =
     (let links = findTag ''a'' li
      in case links of
           [] \<Rightarrow> []
         | [l] \<Rightarrow> trim (textOf l)
         | l # l' # ls \<Rightarrow> scanLinks links)"

text \<open>The text of the item up to its first line feed, trimmed (line 231).\<close>

definition firstLine :: "node \<Rightarrow> jsstring" where
  "firstLine li = trim (takeWhile (\<lambda>c. c \<noteq> 0x0A) (textOf li))"

definition itemName :: "node \<Rightarrow> jsstring" where
  "itemName li =
     (let name = nameFromLinks li
      in if name = [] then
           (let t = firstLine li
            in if t \<noteq> [] \<and> length t > 1 \<and> \<not> navOnly t then t else name)
         else name)"

text \<open>\<open>found\<close> is the array \<open>antagonists\<close> of the source, filled item by item.\<close>

definition pushItem :: "jsstring list \<Rightarrow> node \<Rightarrow> jsstring list" where
  "pushItem found li =
     (let name = itemName li
      in if name \<noteq> [] \<and> length name > 1 then found @ [name] else found)"

section \<open>marvelScraper.ts: parseAntagonistsFromHtml\<close>

text \<open>
  \<open>$('h2')\<close>: every \<open>h2\<close> of the document in document order, here with the elements that
  follow it under the same parent (\<open>nextAll\<close>).
\<close>

fun h2Sections :: "node \<Rightarrow> (node \<times> node list) list"
  and h2SectionsIn :: "node list \<Rightarrow> (node \<times> node list) list" where
  "h2Sections (Text s) = []"
| "h2Sections (Element t cs) = h2SectionsIn cs"
| "h2SectionsIn [] = []"
| "h2SectionsIn (n # rest) =
     (if hasTag ''h2'' n then [(n, filter isElement rest)] else [])
     @ h2Sections n @ h2SectionsIn rest"

text \<open>Each element with the element that follows it (\<open>next\<close>), if any.\<close>

fun withNext :: "node list \<Rightarrow> (node \<times> node option) list" where
  "withNext [] = []"
| "withNext [e] = [(e, None)]"
| "withNext (e # e' # es) = (e, Some e') # withNext (e' # es)"

definition isList :: "node \<Rightarrow> bool" where
  "isList n \<longleftrightarrow> hasTag ''ul'' n \<or> hasTag ''ol'' n"

definition hasAntagonistLabel :: "node \<Rightarrow> bool" where
  "hasAntagonistLabel el \<longleftrightarrow>
     (hasTag ''b'' el \<and> includesStr (textOf el) (js ''Antagonists''))
     \<or> length (filter (\<lambda>b. hasTag ''b'' b \<and> includesStr (textOf b) (js ''Antagonists''))
                  (descendants el)) > 0"

text \<open>The callback of \<open>content.each\<close> (lines 181 to 246).\<close>

definition scanElement :: "jsstring list \<Rightarrow> node \<times> node option \<Rightarrow> jsstring list" where
  "scanElement found en =
     (case en of (el, nxt) \<Rightarrow>
        if hasAntagonistLabel el then
          (let nextList =
                 (if isList el then [el]
                  else case nxt of
                         None \<Rightarrow> []
                       | Some n \<Rightarrow> if isList n then [n] else [])
           in foldl pushItem found (concat (map (findTag ''li'') nextList)))
        else found)"

text \<open>
  The body of the loop over the headings (lines 169 to 249). The content of a section is
  what follows the heading up to the next \<open>h2\<close> among its siblings.
\<close>

definition scanSection :: "jsstring list \<Rightarrow> node \<times> node list \<Rightarrow> jsstring list" where
  "scanSection found hs =
     (case hs of (heading, following) \<Rightarrow>
        if includesStr (toLowerCase (textOf heading)) (js ''appearing in'') then
          foldl scanElement found
            (takeWhile (\<lambda>(el, nxt). \<not> hasTag ''h2'' el) (withNext following))
        else found)"

definition parseAntagonistsFromHtml :: "node \<Rightarrow> jsstring list" where
  "parseAntagonistsFromHtml document = foldl scanSection [] (h2Sections document)"

section \<open>dataProcessor.ts: serializeProcessedData\<close>

text \<open>
  The object handed to \<open>JSON.stringify\<close>. A property whose value is \<open>undefined\<close> is
  \<open>None\<close>: \<open>names[0]\<close> of an empty array.
\<close>

record statsJson =
  totalVillains_json :: nat
  mostFrequent_json :: "jsstring option"
  mostFrequentCount_json :: nat
  averageFrequency_json :: jsnumber

record villainJson =
  id_json :: jsstring
  name_json :: "jsstring option"
  aliases_json :: "jsstring list"
  firstAppearance_json :: issueKey
  appearances_json :: "issueKey list"
  frequency_json :: nat

record timelineJson =
  issue_json :: issueKey
  villainCount_json :: nat
  villainNames_json :: "jsstring option list"

record processedJson =
  series_json :: jsstring
  processedAt_json :: jsstring
  stats_json :: statsJson
  villains_json :: "villainJson list"
  timeline_json :: "timelineJson list"

text \<open>
  The double nearest to a rational, ties to the even significand, for values in the range
  of normal doubles: the significand has 53 bits, so the value is scaled by a power of two
  into the integers from \<open>2^52\<close> up to \<open>2^53\<close>, rounded there and scaled back.
\<close>

fun log2floor :: "nat \<Rightarrow> nat" where
  "log2floor n = (if n < 2 then 0 else 1 + log2floor (n div 2))"

text \<open>\<open>binaryExponent r\<close> is the integer \<open>e\<close> with \<open>2^e \<le> r < 2^(e + 1)\<close>, for \<open>r > 0\<close>.\<close>

definition binaryExponent :: "rat \<Rightarrow> int" where
  "binaryExponent r =
     (if r \<ge> 1 then int (log2floor (nat \<lfloor>r\<rfloor>))
      else let n = nat \<lceil>1 / r\<rceil>
           in - int (if n \<le> 1 then 0 else log2floor (n - 1) + 1))"

definition roundTiesEven :: "rat \<Rightarrow> int" where
  "roundTiesEven m =
     (let f = \<lfloor>m\<rfloor>; d = m - of_int f
      in if d < 1 / 2 then f else if d > 1 / 2 then f + 1 else if even f then f else f + 1)"

definition scale2 :: "rat \<Rightarrow> int \<Rightarrow> rat" where
  "scale2 r s = (if s \<ge> 0 then r * 2 ^ nat s else r / 2 ^ nat (- s))"

definition toDouble :: "rat \<Rightarrow> rat" where
  "toDouble r =
     (if r = 0 then 0
      else let a = \<bar>r\<bar>;
               s = 52 - binaryExponent a;
               d = scale2 (of_int (roundTiesEven (scale2 a s))) (- s)
           in if r < 0 then - d else d)"

text \<open>
  \<open>Math.round(x * 100) / 100\<close> on doubles: \<open>x\<close> is the double for \<open>r\<close>, the product is
  rounded to a double, \<open>Math.round\<close> gives the nearest integer (a half goes upwards), and
  the last division returns the double nearest to its quotient.
\<close>

definition roundHundredths :: "jsnumber \<Rightarrow> jsnumber" where
  "roundHundredths x =
     (case x of
        Finite r \<Rightarrow> Finite (of_int \<lfloor>toDouble (toDouble r * 100) + 1 / 2\<rfloor> / 100)
      | NaN \<Rightarrow> NaN
      | PosInfinity \<Rightarrow> PosInfinity)"

definition serializeProcessedData :: "processedData \<Rightarrow> processedJson" where
  "serializeProcessedData d =
     \<lparr>series_json = series d,
      processedAt_json = processedAt d,
      stats_json =
        \<lparr>totalVillains_json = totalVillains (stats d),
         mostFrequent_json = first (names (mostFrequent (stats d))),
         mostFrequentCount_json = frequency (mostFrequent (stats d)),
         averageFrequency_json = roundHundredths (averageFrequency (stats d))\<rparr>,
      villains_json =
        map (\<lambda>v. \<lparr>id_json = villainId v,
                   name_json = first (names v),
                   aliases_json = drop 1 (names v),
                   firstAppearance_json = firstAppearance v,
                   appearances_json = appearances v,
                   frequency_json = frequency v\<rparr>)
          (villains d),
      timeline_json =
        map (\<lambda>t. \<lparr>issue_json = issue t,
                   villainCount_json = villainCount t,
                   villainNames_json = map (\<lambda>v. first (names v)) (villainsInIssue t)\<rparr>)
          (timeline d)\<rparr>"

section \<open>Notions used to state the properties\<close>

text \<open>
  A string holds a span in parentheses when some \<open>(\<close> has a \<open>)\<close> after it; a string is
  trimmed when it neither starts nor ends with white space.
\<close>

fun hasSpan :: "jsstring \<Rightarrow> bool" where
  "hasSpan [] = False"
| "hasSpan (c # cs) = ((c = 0x28 \<and> 0x29 \<in> set cs) \<or> hasSpan cs)"

definition trimmed :: "jsstring \<Rightarrow> bool" where
  "trimmed t \<longleftrightarrow> t = [] \<or> (\<not> isWhiteSpace (hd t) \<and> \<not> isWhiteSpace (last t))"

text \<open>
  The order in which \<open>sortAppearances\<close> leaves the keys: numbers ascending, then
  \<open>undefined\<close>. It is strict, so a list sorted by it has no duplicates.
\<close>

fun keyLess :: "issueKey \<Rightarrow> issueKey \<Rightarrow> bool" where
  "keyLess (Some a) (Some b) = (a < b)"
| "keyLess (Some a) None = True"
| "keyLess None k = False"

text \<open>Not after, in that order: how the issue numbers of records in ascending order compare.\<close>

definition keyLeq :: "issueKey \<Rightarrow> issueKey \<Rightarrow> bool" where
  "keyLeq a b \<longleftrightarrow> \<not> keyLess b a"

text \<open>The invariant of the registry while it is built.\<close>

definition entryOk :: "processedVillain \<Rightarrow> bool" where
  "entryOk v \<longleftrightarrow> frequency v = length (appearances v) \<and> distinct (appearances v)"

definition registryOk :: "villainMap \<Rightarrow> bool" where
  "registryOk m \<longleftrightarrow> distinct (map fst m) \<and> list_all (\<lambda>(k, v). entryOk v) m"

text \<open>What the registry holds for a name: nothing before the name is first seen.\<close>

definition appearancesOf :: "villainMap \<Rightarrow> jsstring \<Rightarrow> issueKey list" where
  "appearancesOf m k = (case map_of m k of None \<Rightarrow> [] | Some v \<Rightarrow> appearances v)"

definition frequencyOf :: "villainMap \<Rightarrow> jsstring \<Rightarrow> nat" where
  "frequencyOf m k = (case map_of m k of None \<Rightarrow> 0 | Some v \<Rightarrow> frequency v)"

text \<open>
  A link that the scan of a list item passes over as navigation: its trimmed text is at
  most one code unit long, or consists of white space and the seven glyphs of the source.
\<close>

definition navigationLink :: "node \<Rightarrow> bool" where
  "navigationLink l \<longleftrightarrow> length (trim (textOf l)) \<le> 1 \<or> navOnly (trim (textOf l))"

text \<open>
  The pointer glyphs that the repository names: the seven of the character class and
  U+23F5, the partner of U+23F4 in the tests of the scraper, which the class leaves out.
  A real name is a trimmed text longer than one code unit that is not made of white space
  and pointer glyphs only and does not start with "see" in any case.
\<close>

definition isPointerGlyph :: "codeUnit \<Rightarrow> bool" where
  "isPointerGlyph c \<longleftrightarrow>
     c = 0x23F4 \<or> c = 0x23F5 \<or> c = 0x25C0 \<or> c = 0x25B6 \<or> c = 0x2192 \<or> c = 0x2190
     \<or> c = 0x2191 \<or> c = 0x2193"

definition pointerRun :: "jsstring \<Rightarrow> bool" where
  "pointerRun t \<longleftrightarrow> list_all (\<lambda>c. isWhiteSpace c \<or> isPointerGlyph c) t"

definition realName :: "jsstring \<Rightarrow> bool" where
  "realName t \<longleftrightarrow> length t > 1 \<and> \<not> pointerRun t \<and> \<not> matchesSee t"

text \<open>
  The list items that \<open>parseAntagonistsFromHtml\<close> visits, in the order of its visits: the
  same traversal as \<open>scanElement\<close> and \<open>scanSection\<close>, collecting the items instead of
  their names. An item is listed once for each visit.
\<close>

definition itemsOfElement :: "node \<times> node option \<Rightarrow> node list" where
  "itemsOfElement en =
     (case en of (el, nxt) \<Rightarrow>
        if hasAntagonistLabel el then
          concat (map (findTag ''li'')
            (if isList el then [el]
             else case nxt of
                    None \<Rightarrow> []
                  | Some n \<Rightarrow> if isList n then [n] else []))
        else [])"

definition itemsOfSection :: "node \<times> node list \<Rightarrow> node list" where
  "itemsOfSection hs =
     (case hs of (heading, following) \<Rightarrow>
        if includesStr (toLowerCase (textOf heading)) (js ''appearing in'') then
          concat (map itemsOfElement
            (takeWhile (\<lambda>(el, nxt). \<not> hasTag ''h2'' el) (withNext following)))
        else [])"

definition visitedItems :: "node \<Rightarrow> node list" where
  "visitedItems document = concat (map itemsOfSection (h2Sections document))"

text \<open>A result of \<open>processVillainData\<close> without its \<open>processedAt\<close>.\<close>

definition withoutTimestamp ::
  "error + processedData
     \<Rightarrow> error + jsstring \<times> processedVillain list \<times> timelineData list \<times> villainStats" where
  "withoutTimestamp r = map_sum id (\<lambda>d. (series d, villains d, timeline d, stats d)) r"

text \<open>
  The choice of \<open>mostFrequent\<close> in the words of the specification, to compare with
  \<open>generateStats\<close>: the greatest frequency; among equals the earliest first appearance;
  among those the entry seen first.
\<close>

definition specBetter :: "processedVillain \<Rightarrow> processedVillain \<Rightarrow> bool" where
  "specBetter current prev \<longleftrightarrow>
     frequency current > frequency prev
     \<or> (frequency current = frequency prev
        \<and> keyLess (firstAppearance current) (firstAppearance prev))"

definition specMostFrequent :: "processedVillain list \<Rightarrow> processedVillain" where
  "specMostFrequent villainArray =
     (case villainArray of
        [] \<Rightarrow> sentinel
      | v # vs \<Rightarrow> foldl (\<lambda>prev current. if specBetter current prev then current else prev) v vs)"

section \<open>The registry and its invariant\<close>

lemma set_present: "set (present xs) = {a. Some a \<in> set xs}"
  by (induction xs rule: present.induct) auto

lemma distinct_present: "distinct xs \<Longrightarrow> distinct (present xs)"
  by (induction xs rule: present.induct) (auto simp: set_present)

lemma absent_cases:
  "distinct xs \<Longrightarrow> filter (\<lambda>x. x = None) xs = (if None \<in> set xs then [None] else [])"
  by (induction xs) (auto simp: filter_empty_conv)

lemma length_sortAppearances: "length (sortAppearances xs) = length xs"
  by (induction xs rule: present.induct) (auto simp: sortAppearances_def)

lemma set_sortAppearances: "set (sortAppearances xs) = set xs"
proof -
  have "x \<in> set (sortAppearances xs) \<longleftrightarrow> x \<in> set xs" for x
    by (cases x) (auto simp: sortAppearances_def set_present)
  then show ?thesis by blast
qed

lemma sorted_sortAppearances:
  assumes "distinct xs"
  shows "sorted_wrt keyLess (sortAppearances xs)"
proof -
  have d: "distinct (sort (present xs))" using assms by (simp add: distinct_present)
  have "sorted_wrt (<) (sort (present xs))"
    using d by (simp add: strict_sorted_iff)
  then have a: "sorted_wrt keyLess (map Some (sort (present xs)))"
    by (simp add: sorted_wrt_map)
  have b: "sorted_wrt keyLess (filter (\<lambda>x. x = None) xs)"
    using absent_cases[OF assms] by auto
  have c: "\<forall>x\<in>set (map Some (sort (present xs))). \<forall>y\<in>set (filter (\<lambda>x. x = None) xs). keyLess x y"
    by auto
  show ?thesis
    unfolding sortAppearances_def 
    using a b c by (simp add: sorted_wrt_append)
qed

lemma distinct_sortAppearances:
  assumes "distinct xs"
  shows "distinct (sortAppearances xs)"
proof -
  have d: "distinct (map Some (sort (present xs)))" using assms by (simp add: distinct_present distinct_map)
  show ?thesis
    unfolding sortAppearances_def
    using d assms by (auto simp: distinct_map)
qed

lemma fst_mutate: "map fst (mutate k f m) = map fst m"
  by (induction m) (auto simp: mutate_def)

lemma map_of_mutate:
  "map_of (mutate k f m) k' = (if k' = k then map_option f (map_of m k) else map_of m k')"
  by (induction m) (auto simp: mutate_def)

lemma addName_cases:
  "addName n m rawName = m
   \<or> (map_of m (normalizeVillainName rawName) = None
       \<and> addName n m rawName = m @ [(normalizeVillainName rawName,
            \<lparr>villainId = generateVillainId (normalizeVillainName rawName),
             names = [normalizeVillainName rawName], firstAppearance = n,
             appearances = [n], frequency = 1\<rparr>)])
   \<or> (\<exists>villain. map_of m (normalizeVillainName rawName) = Some villain
         \<and> n \<notin> set (appearances villain)
         \<and> addName n m rawName = mutate (normalizeVillainName rawName)
               (\<lambda>v. v\<lparr>appearances := appearances v @ [n], frequency := frequency v + 1\<rparr>) m)"
  by (cases "map_of m (normalizeVillainName rawName)") (simp_all add: addName_def Let_def)

lemma registryOk_mutate:
  assumes "registryOk m" "map_of m k = Some villain" "entryOk (f villain)"
  shows "registryOk (mutate k f m)"
proof -
  have d: "distinct (map fst m)" using assms(1) by (simp add: registryOk_def)
  have "entryOk v'" if "(k', v') \<in> set (mutate k f m)" for k' v'
  proof -
    from that obtain v where v: "(k', v) \<in> set m" "v' = (if k' = k then f v else v)"
      by (auto simp: mutate_def split: if_splits)
    have "map_of m k' = Some v" using d v(1) by (rule map_of_is_SomeI)
    moreover have "entryOk v" using assms(1) v(1) by (auto simp: registryOk_def list_all_iff)
    ultimately show ?thesis using v(2) assms(2,3) by auto
  qed
  then show ?thesis using d by (auto simp: registryOk_def list_all_iff fst_mutate)
qed

lemma registryOk_addName: "registryOk m \<Longrightarrow> registryOk (addName n m rawName)"
proof -
  assume ok: "registryOk m"
  define nm where "nm = normalizeVillainName rawName"
  show ?thesis
  proof (cases "map_of m nm")
    case None
    then have "nm \<notin> fst ` set m" by (simp add: map_of_eq_None_iff)
    then show ?thesis using ok None
      by (auto simp: addName_def Let_def nm_def registryOk_def entryOk_def)
  next
    case (Some villain)
    have "entryOk villain"
      using ok map_of_SomeD[OF Some] by (auto simp: registryOk_def list_all_iff)
    then have "n \<notin> set (appearances villain) \<Longrightarrow>
        entryOk (villain\<lparr>appearances := appearances villain @ [n], frequency := frequency villain + 1\<rparr>)"
      by (simp add: entryOk_def)
    then show ?thesis using ok Some
      by (auto simp: addName_def Let_def nm_def[symmetric] intro!: registryOk_mutate)
  qed
qed

lemma registryOk_addNames: "registryOk m \<Longrightarrow> registryOk (foldl (addName n) m rawNames)"
  by (induction rawNames arbitrary: m) (auto simp: registryOk_addName)

lemma registryOk_addIssue: "registryOk m \<Longrightarrow> registryOk (addIssue m i)"
  by (simp add: addIssue_def registryOk_addNames)

lemma registryOk_addIssues: "registryOk m \<Longrightarrow> registryOk (foldl addIssue m issues)"
  by (induction issues arbitrary: m) (auto simp: registryOk_addIssue)

lemma registryOk_buildIndex: "registryOk (buildIndex issues)"
  using registryOk_addIssues[of "[]" issues] by (simp add: buildIndex_def registryOk_def)

text \<open>
  Claim C5. For every villain in the output of \<open>processVillainData\<close>, whatever the order
  of the records (and also when a record has no issue number), \<open>frequency\<close> is the length
  of \<open>appearances\<close>, and \<open>appearances\<close> is in ascending order without duplicates.
\<close>

theorem appearances_sorted_and_counted:
  assumes "processVillainData now (RawData s (IssuesArray issues)) = Inr out"
    and "v \<in> set (villains out)"
  shows "frequency v = length (appearances v) \<and> distinct (appearances v)
     \<and> sorted_wrt keyLess (appearances v)"
proof -
  from assms have "v \<in> set (map snd (sortAll (buildIndex issues)))"
    by (auto simp: processVillainData_def Let_def)
  then obtain k v0 where v0: "(k, v0) \<in> set (buildIndex issues)"
    "v = v0\<lparr>appearances := sortAppearances (appearances v0)\<rparr>"
    by (auto simp: sortAll_def)
  have "entryOk v0" using registryOk_buildIndex[of issues] v0(1)
    by (auto simp: registryOk_def list_all_iff)
  then show ?thesis using v0(2)
    by (simp add: entryOk_def length_sortAppearances distinct_sortAppearances sorted_sortAppearances)
qed

theorem appearances_sorted_and_counted_witness:
  "processVillainData (js ''t'') (RawData (js ''s'') (IssuesArray
     [\<lparr>issueNumber = Some 3, title = js ''c'', antagonists = [js ''Ox'']\<rparr>,
      \<lparr>issueNumber = Some 1, title = js ''a'', antagonists = [js ''Ox'', js ''Ox (R)'']\<rparr>]))
   = Inr \<lparr>series = js ''s'', processedAt = js ''t'',
       villains =
         [\<lparr>villainId = js ''ox'', names = [js ''Ox''], firstAppearance = Some 3,
           appearances = [Some 1, Some 3], frequency = 2\<rparr>],
       timeline =
         [\<lparr>issue = Some 3,
           villainsInIssue =
             [\<lparr>villainId = js ''ox'', names = [js ''Ox''], firstAppearance = Some 3,
               appearances = [Some 1, Some 3], frequency = 2\<rparr>],
           villainCount = 1\<rparr>,
          \<lparr>issue = Some 1,
           villainsInIssue =
             [\<lparr>villainId = js ''ox'', names = [js ''Ox''], firstAppearance = Some 3,
               appearances = [Some 1, Some 3], frequency = 2\<rparr>],
           villainCount = 1\<rparr>],
       stats =
         \<lparr>totalVillains = 1,
          mostFrequent =
            \<lparr>villainId = js ''ox'', names = [js ''Ox''], firstAppearance = Some 3,
             appearances = [Some 1, Some 3], frequency = 2\<rparr>,
          averageFrequency = Finite 2,
          firstAppearances = [(Some 3, [Some (js ''Ox'')])]\<rparr>\<rparr>
   \<and> sorted_wrt keyLess [Some (1::int), Some 3]"
  (is "?run = Inr ?out \<and> _")
proof -
  let ?ox = "\<lparr>villainId = js ''ox'', names = [js ''Ox''], firstAppearance = Some 3,
             appearances = [Some 1, Some 3], frequency = 2\<rparr>"
  let ?issues = "[\<lparr>issueNumber = Some 3, title = js ''c'', antagonists = [js ''Ox'']\<rparr>,
      \<lparr>issueNumber = Some 1, title = js ''a'', antagonists = [js ''Ox'', js ''Ox (R)'']\<rparr>]"
  have b: "sortAll (buildIndex ?issues) = [(js ''Ox'', ?ox)]"
    by code_simp
  have t: "generateTimeline ?issues [(js ''Ox'', ?ox)] = timeline ?out"
    by code_simp
  have g: "generateStats [(js ''Ox'', ?ox)] ?issues = stats ?out"
    by code_simp
  have run: "?run = Inr ?out"
    by (simp add: processVillainData_def b t g)
  have v: "?ox \<in> set (villains ?out)" by simp
  show ?thesis
    using run appearances_sorted_and_counted [OF run v] by simp
qed

section \<open>The result of processVillainData\<close>

lemma processVillainData_array:
  "processVillainData now (RawData s (IssuesArray issues)) =
     Inr \<lparr>series = s, processedAt = now,
          villains = map snd (sortAll (buildIndex issues)),
          timeline = generateTimeline issues (sortAll (buildIndex issues)),
          stats = generateStats (sortAll (buildIndex issues)) issues\<rparr>"
  by (simp add: processVillainData_def Let_def)

text \<open>
  Claim C9. For a fixed input, two calls of \<open>processVillainData\<close> give equal results once
  \<open>processedAt\<close> is left out of the comparison: the reading of the clock reaches no other
  field, and an error does not depend on it.
\<close>

theorem processVillainData_deterministic:
  "withoutTimestamp (processVillainData now raw) = withoutTimestamp (processVillainData now' raw)"
proof (cases raw)
  case Falsy
  then show ?thesis by (simp add: processVillainData_def)
next
  case (RawData s issues)
  then show ?thesis
    by (cases issues) (simp_all add: processVillainData_def withoutTimestamp_def Let_def)
qed

section \<open>Statistics\<close>

lemma moreFrequent_gt: "frequency prev < frequency current \<Longrightarrow> moreFrequent prev current = current"
  by (simp add: moreFrequent_def)

lemma moreFrequent_le: "\<not> frequency prev < frequency current \<Longrightarrow> moreFrequent prev current = prev"
  by (simp add: moreFrequent_def)

lemma pick_first_max:
  "\<exists>pre post.
     v # vs = pre @ foldl moreFrequent v vs # post
     \<and> (\<forall>x\<in>set pre. frequency x < frequency (foldl moreFrequent v vs))
     \<and> (\<forall>x\<in>set post. frequency x \<le> frequency (foldl moreFrequent v vs))"
  (is "\<exists>pre post. ?P vs pre post")
proof (induction vs rule: rev_induct)
  case Nil
  have "?P [] [] []" by simp
  then show ?case by blast
next
  case (snoc x xs)
  from snoc obtain pre post where h: "?P xs pre post" by blast
  show ?case
  proof (cases "frequency x > frequency (foldl moreFrequent v xs)")
    case True
    have "\<forall>y\<in>set (v # xs). frequency y < frequency x"
    proof
      fix y assume "y \<in> set (v # xs)"
      then have "y \<in> set pre \<or> y = foldl moreFrequent v xs \<or> y \<in> set post"
        using h by (metis Un_iff set_ConsD set_append)
      then show "frequency y < frequency x" using h True by force
    qed
    then have "?P (xs @ [x]) (v # xs) []"
      using True by (simp add: moreFrequent_gt)
    then show ?thesis by blast
  next
    case False
    have "?P (xs @ [x]) pre (post @ [x])"
      using False h by (auto simp: moreFrequent_le)
    then show ?thesis by blast
  qed
qed

lemma sum_frequencies:
  "foldl (\<lambda>sum v. sum + frequency v) a vs = a + sum_list (map frequency vs)"
  by (induction vs arbitrary: a) auto

text \<open>
  Claim C8. \<open>averageFrequency\<close> is the arithmetic mean of the frequencies of all villains,
  and 0 when the registry is empty; the division is never by zero, so the result is never
  \<open>NaN\<close> or \<open>Infinity\<close>.
\<close>

theorem averageFrequency_is_mean:
  assumes "processVillainData now (RawData s (IssuesArray issues)) = Inr out"
  shows "averageFrequency (stats out) =
           (if villains out = [] then Finite 0
            else Finite (of_nat (sum_list (map frequency (villains out)))
                         / of_nat (length (villains out))))
         \<and> averageFrequency (stats out) \<noteq> NaN \<and> averageFrequency (stats out) \<noteq> PosInfinity"
proof -
  let ?m = "sortAll (buildIndex issues)"
  from assms have v: "villains out = map snd ?m" and st: "stats out = generateStats ?m issues"
    by (auto simp: processVillainData_array)
  have "averageFrequency (generateStats ?m issues) =
          (if map snd ?m = [] then Finite 0
           else Finite (of_nat (sum_list (map frequency (map snd ?m))) / of_nat (length (map snd ?m))))"
    by (simp add: generateStats_def Let_def jsDivide_def sum_frequencies del: map_map)
  then show ?thesis using v st by simp
qed

theorem averageFrequency_is_mean_witness:
  "processVillainData (js ''t'') (RawData (js ''s'') (IssuesArray
     [\<lparr>issueNumber = Some 1, title = js ''x'', antagonists = [js ''A'', js ''B'']\<rparr>,
      \<lparr>issueNumber = Some 2, title = js ''x'', antagonists = [js ''A'']\<rparr>]))
   = Inr \<lparr>series = js ''s'', processedAt = js ''t'',
       villains = [\<lparr>villainId = js ''a'', names = [js ''A''], firstAppearance = Some 1,
             appearances = [Some 1, Some 2], frequency = 2\<rparr>,
         \<lparr>villainId = js ''b'', names = [js ''B''], firstAppearance = Some 1,
             appearances = [Some 1], frequency = 1\<rparr>],
       timeline = [\<lparr>issue = Some 1, villainsInIssue = [\<lparr>villainId = js ''a'', names = [js ''A''], firstAppearance = Some 1,
             appearances = [Some 1, Some 2], frequency = 2\<rparr>, \<lparr>villainId = js ''b'', names = [js ''B''], firstAppearance = Some 1,
             appearances = [Some 1], frequency = 1\<rparr>], villainCount = 2\<rparr>,
         \<lparr>issue = Some 2, villainsInIssue = [\<lparr>villainId = js ''a'', names = [js ''A''], firstAppearance = Some 1,
             appearances = [Some 1, Some 2], frequency = 2\<rparr>], villainCount = 1\<rparr>],
       stats = \<lparr>totalVillains = 2, mostFrequent = \<lparr>villainId = js ''a'', names = [js ''A''], firstAppearance = Some 1,
             appearances = [Some 1, Some 2], frequency = 2\<rparr>,
          averageFrequency = Finite (3 / 2),
          firstAppearances = [(Some 1, [Some (js ''A''), Some (js ''B'')])]\<rparr>\<rparr>
   \<and> Finite (3 / 2) \<noteq> NaN \<and> Finite (3 / 2) \<noteq> PosInfinity"
  (is "?run = Inr ?out \<and> _")
proof -
  let ?issues = "[\<lparr>issueNumber = Some 1, title = js ''x'', antagonists = [js ''A'', js ''B'']\<rparr>,
      \<lparr>issueNumber = Some 2, title = js ''x'', antagonists = [js ''A'']\<rparr>]"
  let ?reg = "[(js ''A'', \<lparr>villainId = js ''a'', names = [js ''A''], firstAppearance = Some 1,
             appearances = [Some 1, Some 2], frequency = 2\<rparr>), (js ''B'', \<lparr>villainId = js ''b'', names = [js ''B''], firstAppearance = Some 1,
             appearances = [Some 1], frequency = 1\<rparr>)]"
  let ?tl = "[\<lparr>issue = Some 1, villainsInIssue = [\<lparr>villainId = js ''a'', names = [js ''A''], firstAppearance = Some 1,
             appearances = [Some 1, Some 2], frequency = 2\<rparr>, \<lparr>villainId = js ''b'', names = [js ''B''], firstAppearance = Some 1,
             appearances = [Some 1], frequency = 1\<rparr>], villainCount = 2\<rparr>,
         \<lparr>issue = Some 2, villainsInIssue = [\<lparr>villainId = js ''a'', names = [js ''A''], firstAppearance = Some 1,
             appearances = [Some 1, Some 2], frequency = 2\<rparr>], villainCount = 1\<rparr>]"
  let ?st = "\<lparr>totalVillains = 2, mostFrequent = \<lparr>villainId = js ''a'', names = [js ''A''], firstAppearance = Some 1,
             appearances = [Some 1, Some 2], frequency = 2\<rparr>,
          averageFrequency = Finite (3 / 2),
          firstAppearances = [(Some 1, [Some (js ''A''), Some (js ''B'')])]\<rparr>"
  have b: "sortAll (buildIndex ?issues) = ?reg"
    by code_simp
  have vs: "map snd ?reg = [\<lparr>villainId = js ''a'', names = [js ''A''], firstAppearance = Some 1,
             appearances = [Some 1, Some 2], frequency = 2\<rparr>,
         \<lparr>villainId = js ''b'', names = [js ''B''], firstAppearance = Some 1,
             appearances = [Some 1], frequency = 1\<rparr>]"
    by simp
  have t: "generateTimeline ?issues ?reg = ?tl"
    by code_simp
  have g: "generateStats ?reg ?issues = ?st"
    by code_simp
  have run: "?run = Inr ?out"
    by (simp only: processVillainData_array b vs t g)
  show ?thesis
    using run averageFrequency_is_mean [OF run] by simp
qed

lemma keyLeq_refl: "keyLeq a a"
  by (cases a) (simp_all add: keyLeq_def)

lemma firsts_mutate:
  "map (firstAppearance \<circ> snd)
     (mutate k (\<lambda>v. v\<lparr>appearances := f v, frequency := g v\<rparr>) m)
   = map (firstAppearance \<circ> snd) m"
  by (induction m) (auto simp: mutate_def)

lemma firsts_addName:
  assumes "sorted_wrt keyLeq (map (firstAppearance \<circ> snd) m @ n # later)"
  shows "sorted_wrt keyLeq (map (firstAppearance \<circ> snd) (addName n m rawName) @ n # later)"
proof -
  consider (same) "addName n m rawName = m"
    | (new) "map (firstAppearance \<circ> snd) (addName n m rawName)
               = map (firstAppearance \<circ> snd) m @ [n]"
    | (seen) "map (firstAppearance \<circ> snd) (addName n m rawName)
               = map (firstAppearance \<circ> snd) m"
    using addName_cases[of n m rawName] by (auto simp: firsts_mutate)
  then show ?thesis
  proof cases
    case same
    then show ?thesis using assms by simp
  next
    case new
    then show ?thesis using assms by (auto simp: sorted_wrt_append keyLeq_refl)
  next
    case seen
    then show ?thesis using assms by simp
  qed
qed

lemma firsts_addNames:
  "sorted_wrt keyLeq (map (firstAppearance \<circ> snd) m @ n # later) \<Longrightarrow>
   sorted_wrt keyLeq (map (firstAppearance \<circ> snd) (foldl (addName n) m rawNames) @ n # later)"
  by (induction rawNames arbitrary: m) (simp_all add: firsts_addName)

lemma firsts_addIssues:
  "sorted_wrt keyLeq (map (firstAppearance \<circ> snd) m @ map issueNumber issues) \<Longrightarrow>
   sorted_wrt keyLeq (map (firstAppearance \<circ> snd) (foldl addIssue m issues))"
proof (induction issues arbitrary: m)
  case Nil
  then show ?case by simp
next
  case (Cons i rest)
  have "sorted_wrt keyLeq (map (firstAppearance \<circ> snd) m
          @ issueNumber i # map issueNumber rest)"
    using Cons.prems by (simp only: list.map)
  then have "sorted_wrt keyLeq (map (firstAppearance \<circ> snd) (addIssue m i)
          @ issueNumber i # map issueNumber rest)"
    unfolding addIssue_def by (rule firsts_addNames)
  then have "sorted_wrt keyLeq (map (firstAppearance \<circ> snd) (addIssue m i) @ map issueNumber rest)"
    by (auto simp: sorted_wrt_append)
  from Cons.IH[OF this] show ?case by simp
qed

lemma firsts_sortAll:
  "map (firstAppearance \<circ> snd) (sortAll m) = map (firstAppearance \<circ> snd) m"
  by (induction m) (auto simp: sortAll_def)

lemma firsts_registry:
  "sorted_wrt keyLeq (map issueNumber issues) \<Longrightarrow>
   sorted_wrt keyLeq (map firstAppearance (map snd (sortAll (buildIndex issues))))"
  using firsts_addIssues[of "[]" issues] by (simp add: buildIndex_def firsts_sortAll)

text \<open>
  Claim C2, as amended. When the registry is not empty, \<open>mostFrequent\<close> is the first entry,
  in the order in which the names were first seen, among those of greatest frequency: every
  entry before it has a smaller frequency and no entry after it has a greater one.
  \<open>firstAppearance\<close> is not consulted; when the records come in ascending order of issue
  number, the entry chosen also has the earliest first appearance among those of greatest
  frequency.
\<close>

theorem mostFrequent_first_of_greatest_frequency:
  assumes "processVillainData now (RawData s (IssuesArray issues)) = Inr out"
    and "villains out \<noteq> []"
  shows "(\<exists>pre post.
            villains out = pre @ mostFrequent (stats out) # post
            \<and> (\<forall>v\<in>set pre. frequency v < frequency (mostFrequent (stats out)))
            \<and> (\<forall>v\<in>set post. frequency v \<le> frequency (mostFrequent (stats out))))
         \<and> (sorted_wrt keyLeq (map issueNumber issues) \<longrightarrow>
              (\<forall>v\<in>set (villains out).
                 frequency v = frequency (mostFrequent (stats out)) \<longrightarrow>
                 keyLeq (firstAppearance (mostFrequent (stats out))) (firstAppearance v)))"
proof -
  let ?m = "sortAll (buildIndex issues)"
  let ?mf = "mostFrequent (stats out)"
  from assms have v: "villains out = map snd ?m" and st: "stats out = generateStats ?m issues"
    by (auto simp: processVillainData_array)
  from assms(2) v obtain x xs where c: "map snd ?m = x # xs" by (cases "map snd ?m") auto
  then have "mostFrequent (generateStats ?m issues) = foldl moreFrequent x xs"
    by (simp add: generateStats_def Let_def)
  then obtain pre post where split: "villains out = pre @ ?mf # post"
    and pre: "\<forall>v\<in>set pre. frequency v < frequency ?mf"
    and post: "\<forall>v\<in>set post. frequency v \<le> frequency ?mf"
    using pick_first_max[of x xs] v st c by auto
  have "keyLeq (firstAppearance ?mf) (firstAppearance w)"
    if asc: "sorted_wrt keyLeq (map issueNumber issues)"
      and w: "w \<in> set (villains out)" "frequency w = frequency ?mf"
    for w
  proof -
    have "sorted_wrt keyLeq (map firstAppearance (pre @ ?mf # post))"
      using firsts_registry[OF asc] v split by simp
    then have later: "\<forall>u\<in>set post. keyLeq (firstAppearance ?mf) (firstAppearance u)"
      by (auto simp: sorted_wrt_append)
    from w split pre have "w = ?mf \<or> w \<in> set post" by auto
    then show ?thesis using later keyLeq_refl by auto
  qed
  then show ?thesis using split pre post by blast
qed

theorem mostFrequent_first_of_greatest_frequency_witness:
  "processVillainData (js ''t'') (RawData (js ''s'') (IssuesArray
     [\<lparr>issueNumber = Some 1, title = js ''x'', antagonists = [js ''A'']\<rparr>,
      \<lparr>issueNumber = Some 2, title = js ''x'', antagonists = [js ''B'']\<rparr>]))
   = Inr \<lparr>series = js ''s'', processedAt = js ''t'',
       villains = [\<lparr>villainId = js ''a'', names = [js ''A''], firstAppearance = Some 1,
             appearances = [Some 1], frequency = 1\<rparr>,
         \<lparr>villainId = js ''b'', names = [js ''B''], firstAppearance = Some 2,
             appearances = [Some 2], frequency = 1\<rparr>],
       timeline = [\<lparr>issue = Some 1, villainsInIssue = [\<lparr>villainId = js ''a'', names = [js ''A''], firstAppearance = Some 1,
             appearances = [Some 1], frequency = 1\<rparr>], villainCount = 1\<rparr>,
         \<lparr>issue = Some 2, villainsInIssue = [\<lparr>villainId = js ''b'', names = [js ''B''], firstAppearance = Some 2,
             appearances = [Some 2], frequency = 1\<rparr>], villainCount = 1\<rparr>],
       stats = \<lparr>totalVillains = 2, mostFrequent = \<lparr>villainId = js ''a'', names = [js ''A''], firstAppearance = Some 1,
             appearances = [Some 1], frequency = 1\<rparr>,
          averageFrequency = Finite 1,
          firstAppearances = [(Some 1, [Some (js ''A'')]), (Some 2, [Some (js ''B'')])]\<rparr>\<rparr>
   \<and> sorted_wrt keyLeq [Some (1::int), Some 2] \<and> keyLeq (Some (1::int)) (Some 2)"
  (is "?run = Inr ?out \<and> _")
proof -
  let ?issues = "[\<lparr>issueNumber = Some 1, title = js ''x'', antagonists = [js ''A'']\<rparr>,
      \<lparr>issueNumber = Some 2, title = js ''x'', antagonists = [js ''B'']\<rparr>]"
  let ?reg = "[(js ''A'', \<lparr>villainId = js ''a'', names = [js ''A''], firstAppearance = Some 1,
             appearances = [Some 1], frequency = 1\<rparr>), (js ''B'', \<lparr>villainId = js ''b'', names = [js ''B''], firstAppearance = Some 2,
             appearances = [Some 2], frequency = 1\<rparr>)]"
  let ?tl = "[\<lparr>issue = Some 1, villainsInIssue = [\<lparr>villainId = js ''a'', names = [js ''A''], firstAppearance = Some 1,
             appearances = [Some 1], frequency = 1\<rparr>], villainCount = 1\<rparr>,
         \<lparr>issue = Some 2, villainsInIssue = [\<lparr>villainId = js ''b'', names = [js ''B''], firstAppearance = Some 2,
             appearances = [Some 2], frequency = 1\<rparr>], villainCount = 1\<rparr>]"
  let ?st = "\<lparr>totalVillains = 2, mostFrequent = \<lparr>villainId = js ''a'', names = [js ''A''], firstAppearance = Some 1,
             appearances = [Some 1], frequency = 1\<rparr>,
          averageFrequency = Finite 1,
          firstAppearances = [(Some 1, [Some (js ''A'')]), (Some 2, [Some (js ''B'')])]\<rparr>"
  have b: "sortAll (buildIndex ?issues) = ?reg"
    by code_simp
  have vs: "map snd ?reg = [\<lparr>villainId = js ''a'', names = [js ''A''], firstAppearance = Some 1,
             appearances = [Some 1], frequency = 1\<rparr>,
         \<lparr>villainId = js ''b'', names = [js ''B''], firstAppearance = Some 2,
             appearances = [Some 2], frequency = 1\<rparr>]"
    by simp
  have t: "generateTimeline ?issues ?reg = ?tl"
    by code_simp
  have g: "generateStats ?reg ?issues = ?st"
    by code_simp
  have run: "?run = Inr ?out"
    by (simp only: processVillainData_array b vs t g)
  have ne: "villains ?out \<noteq> []" by simp
  have asc: "sorted_wrt keyLeq [Some (1::int), Some 2]" "keyLeq (Some (1::int)) (Some 2)"
    by (simp_all add: keyLeq_def)
  show ?thesis
    using run asc mostFrequent_first_of_greatest_frequency [OF run ne] by simp
qed

text \<open>
  Claim C2 as stated fails when the records are not in ascending order of issue number: B
  is seen first, in issue 2, and A second, in issue 1. Both have frequency 1; the earliest
  first appearance is that of A, and \<open>mostFrequent\<close> is B.
\<close>

theorem mostFrequent_ignores_firstAppearance:
  "processVillainData (js ''t'') (RawData (js ''s'') (IssuesArray
     [\<lparr>issueNumber = Some 2, title = js ''x'', antagonists = [js ''B'']\<rparr>,
      \<lparr>issueNumber = Some 1, title = js ''x'', antagonists = [js ''A'']\<rparr>]))
   = Inr \<lparr>series = js ''s'', processedAt = js ''t'',
       villains = [\<lparr>villainId = js ''b'', names = [js ''B''], firstAppearance = Some 2,
             appearances = [Some 2], frequency = 1\<rparr>,
         \<lparr>villainId = js ''a'', names = [js ''A''], firstAppearance = Some 1,
             appearances = [Some 1], frequency = 1\<rparr>],
       timeline = [\<lparr>issue = Some 2, villainsInIssue = [\<lparr>villainId = js ''b'', names = [js ''B''], firstAppearance = Some 2,
             appearances = [Some 2], frequency = 1\<rparr>], villainCount = 1\<rparr>,
         \<lparr>issue = Some 1, villainsInIssue = [\<lparr>villainId = js ''a'', names = [js ''A''], firstAppearance = Some 1,
             appearances = [Some 1], frequency = 1\<rparr>], villainCount = 1\<rparr>],
       stats = \<lparr>totalVillains = 2, mostFrequent = \<lparr>villainId = js ''b'', names = [js ''B''], firstAppearance = Some 2,
             appearances = [Some 2], frequency = 1\<rparr>,
          averageFrequency = Finite 1,
          firstAppearances = [(Some 2, [Some (js ''B'')]), (Some 1, [Some (js ''A'')])]\<rparr>\<rparr>
   \<and> specMostFrequent
       [\<lparr>villainId = js ''b'', names = [js ''B''], firstAppearance = Some 2,
             appearances = [Some 2], frequency = 1\<rparr>,
        \<lparr>villainId = js ''a'', names = [js ''A''], firstAppearance = Some 1,
             appearances = [Some 1], frequency = 1\<rparr>]
     = \<lparr>villainId = js ''a'', names = [js ''A''], firstAppearance = Some 1,
             appearances = [Some 1], frequency = 1\<rparr>"
  (is "?run = Inr ?out \<and> _")
proof -
  let ?issues = "[\<lparr>issueNumber = Some 2, title = js ''x'', antagonists = [js ''B'']\<rparr>,
      \<lparr>issueNumber = Some 1, title = js ''x'', antagonists = [js ''A'']\<rparr>]"
  let ?reg = "[(js ''B'', \<lparr>villainId = js ''b'', names = [js ''B''], firstAppearance = Some 2,
             appearances = [Some 2], frequency = 1\<rparr>), (js ''A'', \<lparr>villainId = js ''a'', names = [js ''A''], firstAppearance = Some 1,
             appearances = [Some 1], frequency = 1\<rparr>)]"
  let ?tl = "[\<lparr>issue = Some 2, villainsInIssue = [\<lparr>villainId = js ''b'', names = [js ''B''], firstAppearance = Some 2,
             appearances = [Some 2], frequency = 1\<rparr>], villainCount = 1\<rparr>,
         \<lparr>issue = Some 1, villainsInIssue = [\<lparr>villainId = js ''a'', names = [js ''A''], firstAppearance = Some 1,
             appearances = [Some 1], frequency = 1\<rparr>], villainCount = 1\<rparr>]"
  let ?st = "\<lparr>totalVillains = 2, mostFrequent = \<lparr>villainId = js ''b'', names = [js ''B''], firstAppearance = Some 2,
             appearances = [Some 2], frequency = 1\<rparr>,
          averageFrequency = Finite 1,
          firstAppearances = [(Some 2, [Some (js ''B'')]), (Some 1, [Some (js ''A'')])]\<rparr>"
  have b: "sortAll (buildIndex ?issues) = ?reg"
    by code_simp
  have vs: "map snd ?reg = [\<lparr>villainId = js ''b'', names = [js ''B''], firstAppearance = Some 2,
             appearances = [Some 2], frequency = 1\<rparr>,
         \<lparr>villainId = js ''a'', names = [js ''A''], firstAppearance = Some 1,
             appearances = [Some 1], frequency = 1\<rparr>]"
    by simp
  have t: "generateTimeline ?issues ?reg = ?tl"
    by code_simp
  have g: "generateStats ?reg ?issues = ?st"
    by code_simp
  have run: "?run = Inr ?out"
    by (simp only: processVillainData_array b vs t g)
  have sp: "specMostFrequent (villains ?out) = \<lparr>villainId = js ''a'', names = [js ''A''], firstAppearance = Some 1,
             appearances = [Some 1], frequency = 1\<rparr>"
    by code_simp
  show ?thesis
    using run sp by simp
qed

section \<open>Failures and empty inputs\<close>

lemma in_mutate:
  "(k', v') \<in> set (mutate k f m) \<Longrightarrow> \<exists>v. (k', v) \<in> set m \<and> v' = (if k' = k then f v else v)"
  by (auto simp: mutate_def split: if_splits)

lemma addName_keys:
  assumes "(k', v') \<in> set (addName n m rawName)" and "key \<in> set (appearances v')"
  shows "key = n \<or> (\<exists>v. (k', v) \<in> set m \<and> key \<in> set (appearances v))"
proof -
  consider (same) "addName n m rawName = m"
    | (new) "addName n m rawName = m @ [(normalizeVillainName rawName,
            \<lparr>villainId = generateVillainId (normalizeVillainName rawName),
             names = [normalizeVillainName rawName], firstAppearance = n,
             appearances = [n], frequency = 1\<rparr>)]"
    | (seen) "addName n m rawName = mutate (normalizeVillainName rawName)
               (\<lambda>v. v\<lparr>appearances := appearances v @ [n], frequency := frequency v + 1\<rparr>) m"
    using addName_cases[of n m rawName] by blast
  then show ?thesis
  proof cases
    case same
    then show ?thesis using assms by auto
  next
    case new
    then show ?thesis using assms by auto
  next
    case seen
    with assms(1) obtain v where "(k', v) \<in> set m"
      "v' = (if k' = normalizeVillainName rawName
             then v\<lparr>appearances := appearances v @ [n], frequency := frequency v + 1\<rparr> else v)"
      using in_mutate[of k' v'] by force
    then show ?thesis using assms(2) by (auto split: if_splits)
  qed
qed

lemma addNames_keys:
  "(k', v') \<in> set (foldl (addName n) m rawNames) \<Longrightarrow> key \<in> set (appearances v') \<Longrightarrow>
   (key = n \<and> rawNames \<noteq> []) \<or> (\<exists>v. (k', v) \<in> set m \<and> key \<in> set (appearances v))"
proof (induction rawNames arbitrary: m)
  case Nil
  then show ?case by auto
next
  case (Cons r rs)
  from Cons.IH[of "addName n m r"] Cons.prems
  have "(key = n \<and> rs \<noteq> []) \<or> (\<exists>v. (k', v) \<in> set (addName n m r) \<and> key \<in> set (appearances v))"
    by simp
  then show ?case using addName_keys by blast
qed

lemma addIssues_keys:
  "(k', v') \<in> set (foldl addIssue m issues) \<Longrightarrow> key \<in> set (appearances v') \<Longrightarrow>
   (\<exists>i\<in>set issues. issueNumber i = key \<and> antagonists i \<noteq> [])
   \<or> (\<exists>v. (k', v) \<in> set m \<and> key \<in> set (appearances v))"
proof (induction issues arbitrary: m)
  case Nil
  then show ?case by auto
next
  case (Cons i rest)
  from Cons.IH[of "addIssue m i"] Cons.prems
  have "(\<exists>i\<in>set rest. issueNumber i = key \<and> antagonists i \<noteq> [])
        \<or> (\<exists>v. (k', v) \<in> set (addIssue m i) \<and> key \<in> set (appearances v))"
    by simp
  then show ?case using addNames_keys[of k' _ "issueNumber i" m "antagonists i" key]
    by (auto simp: addIssue_def)
qed

lemma registry_keys:
  assumes "v \<in> set (map snd (sortAll (buildIndex issues)))" and "key \<in> set (appearances v)"
  shows "\<exists>i\<in>set issues. issueNumber i = key \<and> antagonists i \<noteq> []"
proof -
  from assms(1) obtain k v0 where v0: "(k, v0) \<in> set (buildIndex issues)"
    "v = v0\<lparr>appearances := sortAppearances (appearances v0)\<rparr>"
    by (auto simp: sortAll_def)
  then have "key \<in> set (appearances v0)" using assms(2) by (simp add: set_sortAppearances)
  then show ?thesis using addIssues_keys[of k v0 "[]" issues key] v0(1)
    by (auto simp: buildIndex_def)
qed

lemma timeline_nth:
  "j < length issues \<Longrightarrow>
   generateTimeline issues m ! j =
     \<lparr>issue = issueNumber (issues ! j),
      villainsInIssue = filter (\<lambda>villain. issueNumber (issues ! j) \<in> set (appearances villain)) (map snd m),
      villainCount = length (filter (\<lambda>villain. issueNumber (issues ! j) \<in> set (appearances villain)) (map snd m))\<rparr>"
  by (simp add: generateTimeline_def Let_def)

text \<open>
  Claim C3, as amended. \<open>processVillainData\<close> fails, with the error "Invalid raw data
  format", when its argument is falsy or its \<open>issues\<close> is not an array. It does not
  validate the records: given an array of records that have their list of names it
  returns a result, and a record without an issue number is processed under the key
  \<open>undefined\<close>. An empty list of names never makes it fail: such a record leaves
  the registry as it is, every record has its slot in the timeline, and a slot holds no
  villain when no record with its issue number has names.
\<close>

theorem processVillainData_failures:
  "processVillainData now Falsy = Inl InvalidRawDataFormat
   \<and> processVillainData now (RawData s IssuesOther) = Inl InvalidRawDataFormat
   \<and> (\<exists>out. processVillainData now (RawData s (IssuesArray issues)) = Inr out
        \<and> map issue (timeline out) = map issueNumber issues
        \<and> (\<forall>j<length issues.
              (\<forall>i\<in>set issues. issueNumber i = issueNumber (issues ! j) \<longrightarrow> antagonists i = [])
              \<longrightarrow> villainsInIssue (timeline out ! j) = [] \<and> villainCount (timeline out ! j) = 0))
   \<and> addIssue m \<lparr>issueNumber = k, title = t, antagonists = []\<rparr> = m"
proof -
  let ?reg = "sortAll (buildIndex issues)"
  have a: "map issue (generateTimeline issues ?reg) = map issueNumber issues"
    by (simp add: generateTimeline_def Let_def)
  have b: "villainsInIssue (generateTimeline issues ?reg ! j) = []
           \<and> villainCount (generateTimeline issues ?reg ! j) = 0"
    if j: "j < length issues"
      and e: "\<forall>i\<in>set issues. issueNumber i = issueNumber (issues ! j) \<longrightarrow> antagonists i = []"
    for j
  proof -
    have "filter (\<lambda>villain. issueNumber (issues ! j) \<in> set (appearances villain)) (map snd ?reg) = []"
      unfolding filter_empty_conv using registry_keys[of _ issues "issueNumber (issues ! j)"] e
      by blast
    then show ?thesis using j by (simp add: timeline_nth)
  qed
  show ?thesis
    using a b by (simp add: processVillainData_array) (simp add: processVillainData_def addIssue_def)
qed

theorem processVillainData_failures_witness:
  "processVillainData (js ''t'') (RawData (js ''s'') (IssuesArray
     [\<lparr>issueNumber = Some 1, title = js ''x'', antagonists = []\<rparr>,
      \<lparr>issueNumber = Some 2, title = js ''x'', antagonists = [js ''A'']\<rparr>]))
   = Inr \<lparr>series = js ''s'', processedAt = js ''t'',
       villains = [\<lparr>villainId = js ''a'', names = [js ''A''], firstAppearance = Some 2,
             appearances = [Some 2], frequency = 1\<rparr>],
       timeline = [\<lparr>issue = Some 1, villainsInIssue = [], villainCount = 0\<rparr>,
         \<lparr>issue = Some 2, villainsInIssue = [\<lparr>villainId = js ''a'', names = [js ''A''], firstAppearance = Some 2,
             appearances = [Some 2], frequency = 1\<rparr>], villainCount = 1\<rparr>],
       stats = \<lparr>totalVillains = 1, mostFrequent = \<lparr>villainId = js ''a'', names = [js ''A''], firstAppearance = Some 2,
             appearances = [Some 2], frequency = 1\<rparr>,
          averageFrequency = Finite 1,
          firstAppearances = [(Some 2, [Some (js ''A'')])]\<rparr>\<rparr>
   \<and> addIssue [] \<lparr>issueNumber = Some 1, title = js ''x'', antagonists = []\<rparr> = []"
  (is "?run = Inr ?out \<and> _")
proof -
  let ?issues = "[\<lparr>issueNumber = Some 1, title = js ''x'', antagonists = []\<rparr>,
      \<lparr>issueNumber = Some 2, title = js ''x'', antagonists = [js ''A'']\<rparr>]"
  let ?reg = "[(js ''A'', \<lparr>villainId = js ''a'', names = [js ''A''], firstAppearance = Some 2,
             appearances = [Some 2], frequency = 1\<rparr>)]"
  let ?tl = "[\<lparr>issue = Some 1, villainsInIssue = [], villainCount = 0\<rparr>,
         \<lparr>issue = Some 2, villainsInIssue = [\<lparr>villainId = js ''a'', names = [js ''A''], firstAppearance = Some 2,
             appearances = [Some 2], frequency = 1\<rparr>], villainCount = 1\<rparr>]"
  let ?st = "\<lparr>totalVillains = 1, mostFrequent = \<lparr>villainId = js ''a'', names = [js ''A''], firstAppearance = Some 2,
             appearances = [Some 2], frequency = 1\<rparr>,
          averageFrequency = Finite 1,
          firstAppearances = [(Some 2, [Some (js ''A'')])]\<rparr>"
  have b: "sortAll (buildIndex ?issues) = ?reg"
    by code_simp
  have vs: "map snd ?reg = [\<lparr>villainId = js ''a'', names = [js ''A''], firstAppearance = Some 2,
             appearances = [Some 2], frequency = 1\<rparr>]"
    by simp
  have t: "generateTimeline ?issues ?reg = ?tl"
    by code_simp
  have g: "generateStats ?reg ?issues = ?st"
    by code_simp
  have run: "?run = Inr ?out"
    by (simp only: processVillainData_array b vs t g)
  show ?thesis
    using run processVillainData_failures [of "js ''t''" "js ''s''" ?issues "[]" "Some 1" "js ''x''"] by simp
qed

text \<open>
  Claim C3 as stated fails for a record that lacks its issue number: no error is raised,
  and the villain is registered with the appearance \<open>undefined\<close>.
\<close>

theorem record_without_issue_number_is_processed:
  "processVillainData (js ''t'') (RawData (js ''s'') (IssuesArray
     [\<lparr>issueNumber = None, title = js ''x'', antagonists = [js ''A'']\<rparr>]))
   = Inr \<lparr>series = js ''s'', processedAt = js ''t'',
       villains = [\<lparr>villainId = js ''a'', names = [js ''A''], firstAppearance = None,
             appearances = [None], frequency = 1\<rparr>],
       timeline = [\<lparr>issue = None, villainsInIssue = [\<lparr>villainId = js ''a'', names = [js ''A''], firstAppearance = None,
             appearances = [None], frequency = 1\<rparr>], villainCount = 1\<rparr>],
       stats = \<lparr>totalVillains = 1, mostFrequent = \<lparr>villainId = js ''a'', names = [js ''A''], firstAppearance = None,
             appearances = [None], frequency = 1\<rparr>,
          averageFrequency = Finite 1,
          firstAppearances = [(None, [Some (js ''A'')])]\<rparr>\<rparr>"
  (is "?run = Inr ?out")
proof -
  let ?issues = "[\<lparr>issueNumber = None, title = js ''x'', antagonists = [js ''A'']\<rparr>]"
  let ?reg = "[(js ''A'', \<lparr>villainId = js ''a'', names = [js ''A''], firstAppearance = None,
             appearances = [None], frequency = 1\<rparr>)]"
  let ?tl = "[\<lparr>issue = None, villainsInIssue = [\<lparr>villainId = js ''a'', names = [js ''A''], firstAppearance = None,
             appearances = [None], frequency = 1\<rparr>], villainCount = 1\<rparr>]"
  let ?st = "\<lparr>totalVillains = 1, mostFrequent = \<lparr>villainId = js ''a'', names = [js ''A''], firstAppearance = None,
             appearances = [None], frequency = 1\<rparr>,
          averageFrequency = Finite 1,
          firstAppearances = [(None, [Some (js ''A'')])]\<rparr>"
  have b: "sortAll (buildIndex ?issues) = ?reg"
    by code_simp
  have vs: "map snd ?reg = [\<lparr>villainId = js ''a'', names = [js ''A''], firstAppearance = None,
             appearances = [None], frequency = 1\<rparr>]"
    by simp
  have t: "generateTimeline ?issues ?reg = ?tl"
    by code_simp
  have g: "generateStats ?reg ?issues = ?st"
    by code_simp
  have run: "?run = Inr ?out"
    by (simp only: processVillainData_array b vs t g)
  show ?thesis
    using run by simp
qed

lemma addName_invalid:
  "length (trim rawName) = 0 \<or> length (normalizeVillainName rawName) = 0 \<Longrightarrow>
   addName n m rawName = m"
  by (auto simp: addName_def Let_def)

lemma addNames_invalid:
  "\<forall>rawName\<in>set rawNames. length (trim rawName) = 0 \<or> length (normalizeVillainName rawName) = 0
   \<Longrightarrow> foldl (addName n) m rawNames = m"
  by (induction rawNames) (simp_all add: addName_invalid)

lemma addIssues_invalid:
  "\<forall>i\<in>set issues. \<forall>rawName\<in>set (antagonists i).
      length (trim rawName) = 0 \<or> length (normalizeVillainName rawName) = 0
   \<Longrightarrow> foldl addIssue m issues = m"
  by (induction issues) (simp_all add: addIssue_def addNames_invalid)

text \<open>
  Claim C10. If no name of any record is valid (each is blank or normalises to the empty
  string), the registry is empty: \<open>processVillainData\<close> returns \<open>totalVillains\<close> 0 and
  the sentinel as \<open>mostFrequent\<close>, whose \<open>names\<close> is empty and whose \<open>frequency\<close> is 0,
  and \<open>serializeProcessedData\<close> emits \<open>stats.mostFrequent\<close> as \<open>undefined\<close>; the rest of
  the object is well formed, with one timeline entry of count 0 for each record.
\<close>

theorem empty_registry_output:
  assumes "\<forall>i\<in>set issues. \<forall>rawName\<in>set (antagonists i).
             length (trim rawName) = 0 \<or> length (normalizeVillainName rawName) = 0"
  shows "\<exists>out. processVillainData now (RawData s (IssuesArray issues)) = Inr out
           \<and> villains out = []
           \<and> totalVillains (stats out) = 0
           \<and> mostFrequent (stats out) = sentinel
           \<and> names (mostFrequent (stats out)) = []
           \<and> frequency (mostFrequent (stats out)) = 0
           \<and> serializeProcessedData out =
               \<lparr>series_json = s,
                processedAt_json = now,
                stats_json =
                  \<lparr>totalVillains_json = 0,
                   mostFrequent_json = None,
                   mostFrequentCount_json = 0,
                   averageFrequency_json = Finite 0\<rparr>,
                villains_json = [],
                timeline_json =
                  map (\<lambda>i. \<lparr>issue_json = issueNumber i, villainCount_json = 0,
                              villainNames_json = []\<rparr>) issues\<rparr>"
proof -
  have b: "buildIndex issues = []"
    using assms by (simp add: buildIndex_def addIssues_invalid)
  have t: "generateTimeline issues [] =
             map (\<lambda>i. \<lparr>issue = issueNumber i, villainsInIssue = [], villainCount = 0\<rparr>) issues"
    by (simp add: generateTimeline_def)
  have g: "generateStats [] issues =
             \<lparr>totalVillains = 0, mostFrequent = sentinel, averageFrequency = Finite 0,
              firstAppearances = []\<rparr>"
    by (simp add: generateStats_def)
  have "\<lfloor>(1::rat) / 2\<rfloor> = 0"
    by (rule floor_unique) simp_all
  then have r: "roundHundredths (Finite 0) = Finite 0"
    by (simp add: roundHundredths_def toDouble_def)
  show ?thesis
    by (simp add: processVillainData_array b sortAll_def t g serializeProcessedData_def r
        sentinel_def first_def comp_def)
qed

theorem empty_registry_output_witness:
  "processVillainData (js ''t'') (RawData (js ''s'') (IssuesArray
     [\<lparr>issueNumber = Some 1, title = js ''x'', antagonists = []\<rparr>,
      \<lparr>issueNumber = Some 2, title = js ''y'', antagonists = [js ''  '', js ''(x),'']\<rparr>]))
   = Inr \<lparr>series = js ''s'', processedAt = js ''t'',
          villains = [],
          timeline =
            [\<lparr>issue = Some 1, villainsInIssue = [], villainCount = 0\<rparr>,
             \<lparr>issue = Some 2, villainsInIssue = [], villainCount = 0\<rparr>],
          stats =
            \<lparr>totalVillains = 0, mostFrequent = sentinel, averageFrequency = Finite 0,
             firstAppearances = []\<rparr>\<rparr>
   \<and> serializeProcessedData
       \<lparr>series = js ''s'', processedAt = js ''t'',
        villains = [],
        timeline =
          [\<lparr>issue = Some 1, villainsInIssue = [], villainCount = 0\<rparr>,
           \<lparr>issue = Some 2, villainsInIssue = [], villainCount = 0\<rparr>],
        stats =
          \<lparr>totalVillains = 0, mostFrequent = sentinel, averageFrequency = Finite 0,
           firstAppearances = []\<rparr>\<rparr>
     = \<lparr>series_json = js ''s'',
        processedAt_json = js ''t'',
        stats_json =
          \<lparr>totalVillains_json = 0,
           mostFrequent_json = None,
           mostFrequentCount_json = 0,
           averageFrequency_json = Finite 0\<rparr>,
        villains_json = [],
        timeline_json =
          [\<lparr>issue_json = Some 1, villainCount_json = 0, villainNames_json = []\<rparr>,
           \<lparr>issue_json = Some 2, villainCount_json = 0, villainNames_json = []\<rparr>]\<rparr>"
  (is "?run = Inr ?out \<and> _")
proof -
  let ?issues = "[\<lparr>issueNumber = Some 1, title = js ''x'', antagonists = []\<rparr>,
      \<lparr>issueNumber = Some 2, title = js ''y'', antagonists = [js ''  '', js ''(x),'']\<rparr>]"
  have n1: "length (trim (js ''  '')) = 0" by code_simp
  have n2: "length (normalizeVillainName (js ''(x),'')) = 0" by code_simp
  have h: "\<forall>i\<in>set ?issues. \<forall>rawName\<in>set (antagonists i).
             length (trim rawName) = 0 \<or> length (normalizeVillainName rawName) = 0"
    using n1 n2 by simp
  have b: "sortAll (buildIndex ?issues) = []"
    by code_simp
  have t: "generateTimeline ?issues [] = timeline ?out"
    by code_simp
  have g: "generateStats [] ?issues = stats ?out"
    by code_simp
  have run: "?run = Inr ?out"
    by (simp add: processVillainData_array b t g)
  show ?thesis
    using run empty_registry_output [OF h, of "js ''t''" "js ''s''"] by auto
qed

section \<open>One record, one appearance\<close>

lemma map_of_addName_other:
  assumes "normalizeVillainName rawName \<noteq> k"
  shows "map_of (addName n m rawName) k = map_of m k"
  using addName_cases[of n m rawName] assms
  by (auto simp: map_of_mutate map_add_def split: option.splits)

lemma addName_step:
  "(appearancesOf (addName n m rawName) k = appearancesOf m k
      \<and> frequencyOf (addName n m rawName) k = frequencyOf m k)
   \<or> (appearancesOf (addName n m rawName) k = appearancesOf m k @ [n]
      \<and> frequencyOf (addName n m rawName) k = frequencyOf m k + 1
      \<and> n \<notin> set (appearancesOf m k))"
proof (cases "normalizeVillainName rawName = k")
  case False
  then show ?thesis
    by (simp add: appearancesOf_def frequencyOf_def map_of_addName_other)
next
  case True
  show ?thesis
    using addName_cases[of n m rawName] unfolding True
    by (auto simp: appearancesOf_def frequencyOf_def map_of_mutate map_add_def)
qed

lemma addName_stable:
  assumes "n \<in> set (appearancesOf m k)"
  shows "appearancesOf (addName n m rawName) k = appearancesOf m k
         \<and> frequencyOf (addName n m rawName) k = frequencyOf m k"
  using addName_step[of n m rawName k] assms by blast

lemma addNames_stable:
  "n \<in> set (appearancesOf m k) \<Longrightarrow>
   appearancesOf (foldl (addName n) m rawNames) k = appearancesOf m k
   \<and> frequencyOf (foldl (addName n) m rawNames) k = frequencyOf m k"
proof (induction rawNames arbitrary: m)
  case Nil
  then show ?case by simp
next
  case (Cons r rs)
  have s: "appearancesOf (addName n m r) k = appearancesOf m k
           \<and> frequencyOf (addName n m r) k = frequencyOf m k"
    using Cons.prems by (rule addName_stable)
  then have "n \<in> set (appearancesOf (addName n m r) k)" using Cons.prems by simp
  from Cons.IH[OF this] s show ?case by simp
qed

lemma addNames_step:
  "(appearancesOf (foldl (addName n) m rawNames) k = appearancesOf m k
      \<and> frequencyOf (foldl (addName n) m rawNames) k = frequencyOf m k)
   \<or> (appearancesOf (foldl (addName n) m rawNames) k = appearancesOf m k @ [n]
      \<and> frequencyOf (foldl (addName n) m rawNames) k = frequencyOf m k + 1
      \<and> n \<notin> set (appearancesOf m k))"
proof (induction rawNames arbitrary: m)
  case Nil
  then show ?case by simp
next
  case (Cons r rs)
  from addName_step[of n m r k] show ?case
  proof
    assume "appearancesOf (addName n m r) k = appearancesOf m k
            \<and> frequencyOf (addName n m r) k = frequencyOf m k"
    then show ?thesis using Cons.IH[of "addName n m r"] by simp
  next
    assume a: "appearancesOf (addName n m r) k = appearancesOf m k @ [n]
            \<and> frequencyOf (addName n m r) k = frequencyOf m k + 1
            \<and> n \<notin> set (appearancesOf m k)"
    then have "n \<in> set (appearancesOf (addName n m r) k)" by simp
    from addNames_stable[OF this, of rs] a show ?thesis by simp
  qed
qed

text \<open>
  Claim C6. Whatever the registry holds and however often a name occurs in the list of a
  record, also under different raw spellings of the same normalised name, the record adds
  at most one entry to the appearances of that villain, its own issue number, and then
  adds exactly one to the frequency: repeated mentions do not inflate the frequency.
\<close>

theorem one_appearance_per_record:
  "(appearancesOf (addIssue m i) k = appearancesOf m k
      \<and> frequencyOf (addIssue m i) k = frequencyOf m k)
   \<or> (appearancesOf (addIssue m i) k = appearancesOf m k @ [issueNumber i]
      \<and> frequencyOf (addIssue m i) k = frequencyOf m k + 1
      \<and> issueNumber i \<notin> set (appearancesOf m k))"
  unfolding addIssue_def by (rule addNames_step)

theorem one_appearance_per_record_witness:
  "appearancesOf
     (addIssue [] \<lparr>issueNumber = Some 1, title = js ''x'',
                   antagonists = [js ''A'', js ''A (x)'', js ''A'']\<rparr>) (js ''A'') = [Some 1]
   \<and> frequencyOf
     (addIssue [] \<lparr>issueNumber = Some 1, title = js ''x'',
                   antagonists = [js ''A'', js ''A (x)'', js ''A'']\<rparr>) (js ''A'') = 1
   \<and> appearancesOf [] (js ''A'') = []"
proof -
  let ?i = "\<lparr>issueNumber = Some 1, title = js ''x'',
             antagonists = [js ''A'', js ''A (x)'', js ''A'']\<rparr>"
  have e: "appearancesOf [] (js ''A'') = []" "frequencyOf [] (js ''A'') = 0"
    by (simp_all add: appearancesOf_def frequencyOf_def)
  have n: "appearancesOf (addIssue [] ?i) (js ''A'') \<noteq> []"
    by code_simp
  show ?thesis
    using one_appearance_per_record [of "[]" ?i "js ''A''"] e n by auto
qed

section \<open>Rounding\<close>

lemma roundHundredths_examples:
  "roundHundredths (Finite (41 / 40)) = Finite (51 / 50)
   \<and> roundHundredths (Finite (3 / 2)) = Finite (3 / 2)
   \<and> roundHundredths (Finite (2 / 3)) = Finite (67 / 100)
   \<and> toDouble (1 / 10) = 3602879701896397 / 2 ^ 55"
  by code_simp

section \<open>Normalisation\<close>

lemma trim_exact:
  assumes "list_all isWhiteSpace pre" and "list_all isWhiteSpace post" and "trimmed body"
  shows "trim (pre @ body @ post) = body"
proof (cases "body = []")
  case True
  have "\<forall>x\<in>set (pre @ post). isWhiteSpace x"
    using assms(1,2) by (auto simp: list_all_iff)
  then have e: "dropWhile isWhiteSpace (pre @ [] @ post) = []"
    by (simp only: dropWhile_eq_Nil_conv append_Nil)
  show ?thesis unfolding True trim_def e by simp
next
  case False
  then have edges: "\<not> isWhiteSpace (hd body)" "\<not> isWhiteSpace (last body)"
    using assms(3) by (simp_all add: trimmed_def)
  have "dropWhile isWhiteSpace (pre @ body @ post) = dropWhile isWhiteSpace (body @ post)"
    using assms(1) by (simp add: list_all_iff dropWhile_append2)
  also have "\<dots> = body @ post"
    using False edges(1) by (cases body) simp_all
  finally have front: "dropWhile isWhiteSpace (pre @ body @ post) = body @ post" .
  have "dropWhile isWhiteSpace (rev post @ rev body) = dropWhile isWhiteSpace (rev body)"
    using assms(2) by (intro dropWhile_append2) (simp add: list_all_iff)
  also have "\<dots> = rev body"
    using False edges(2) by (cases "rev body") (simp_all add: last_rev[symmetric] hd_rev)
  finally show ?thesis using front by (simp add: trim_def)
qed

lemma scanParens_inside:
  "0x29 \<notin> set mid \<Longrightarrow> scanParens True (mid @ 0x29 # rest) = scanParens False rest"
  by (induction mid) simp_all

lemma removeParens_span:
  assumes "0x28 \<notin> set pre" and "0x29 \<notin> set mid"
  shows "removeParens (pre @ 0x28 # mid @ 0x29 # rest) = pre @ removeParens rest"
  using assms unfolding removeParens_def
  by (induction pre) (simp_all add: scanParens_inside)

lemma removeParens_none: "\<not> hasSpan s \<Longrightarrow> removeParens s = s"
  unfolding removeParens_def by (induction s) auto

lemma stripTrailingPunct_exact:
  assumes "list_all isTrailingPunct suffix" and "body = [] \<or> \<not> isTrailingPunct (last body)"
  shows "stripTrailingPunct (body @ suffix) = body"
proof -
  have "dropWhile isTrailingPunct (rev suffix @ rev body) = dropWhile isTrailingPunct (rev body)"
    using assms(1) by (intro dropWhile_append2) (simp add: list_all_iff)
  also have "\<dots> = rev body"
    using assms(2) by (cases "rev body") (auto simp: hd_rev)
  finally show ?thesis by (simp add: stripTrailingPunct_def)
qed

lemma collapseSpaces_word:
  "list_all (\<lambda>c. \<not> isWhiteSpace c) word \<Longrightarrow> collapseSpaces (word @ s) = word @ collapseSpaces s"
  by (induction word) simp_all

lemma collapseSpaces_run:
  assumes "list_all (\<lambda>c. \<not> isWhiteSpace c) word" and "run \<noteq> []"
    and "list_all isWhiteSpace run" and "rest = [] \<or> \<not> isWhiteSpace (hd rest)"
  shows "collapseSpaces (word @ run @ rest) = word @ 0x20 # collapseSpaces rest"
proof -
  from assms(2) obtain c cs where run: "run = c # cs" by (cases run) auto
  have "dropWhile isWhiteSpace (cs @ rest) = dropWhile isWhiteSpace rest"
    using assms(3) run by (simp add: list_all_iff dropWhile_append2)
  also have "\<dots> = rest"
    using assms(4) by (cases rest) auto
  finally have "collapseSpaces (run @ rest) = 0x20 # collapseSpaces rest"
    using assms(3) run by simp
  then show ?thesis using assms(1) by (simp add: collapseSpaces_word)
qed

lemma collapseSpaces_none:
  "list_all (\<lambda>c. \<not> isWhiteSpace c) word \<Longrightarrow> collapseSpaces word = word"
  using collapseSpaces_word[of word "[]"] by simp

text \<open>
  Claim C7. \<open>normalizeVillainName\<close> trims, deletes the spans in parentheses, trims, strips
  the trailing run of \<open>, ; : .\<close>, trims, and collapses each run of white space to one
  space, in this order. Each step is fixed on every input: \<open>trim\<close> removes exactly the
  white space at both ends; \<open>removeParens\<close> deletes each span from a \<open>(\<close> to the next
  \<open>)\<close> and leaves a string without such a span as it is; \<open>stripTrailingPunct\<close> removes
  exactly the run of \<open>, ; : .\<close> at the end; \<open>collapseSpaces\<close> puts one space for each run
  of white space and keeps every other character. The raw name "Green Goblin (Norman
  Osborn)" in issue 1 becomes "Green Goblin", with slug "green-goblin", frequency 1 and
  first appearance 1.
\<close>

theorem normalizeVillainName_steps:
  "normalizeVillainName name =
     collapseSpaces (trim (stripTrailingPunct (trim (removeParens (trim name)))))
   \<and> (list_all isWhiteSpace pre \<and> list_all isWhiteSpace post \<and> trimmed body
        \<longrightarrow> trim (pre @ body @ post) = body)
   \<and> (0x28 \<notin> set before \<and> 0x29 \<notin> set inside
        \<longrightarrow> removeParens (before @ 0x28 # inside @ 0x29 # rest) = before @ removeParens rest)
   \<and> (\<not> hasSpan plain \<longrightarrow> removeParens plain = plain)
   \<and> (list_all isTrailingPunct ending \<and> (stem = [] \<or> \<not> isTrailingPunct (last stem))
        \<longrightarrow> stripTrailingPunct (stem @ ending) = stem)
   \<and> (list_all (\<lambda>c. \<not> isWhiteSpace c) word \<and> run \<noteq> [] \<and> list_all isWhiteSpace run
          \<and> (later = [] \<or> \<not> isWhiteSpace (hd later))
        \<longrightarrow> collapseSpaces (word @ run @ later) = word @ 0x20 # collapseSpaces later)
   \<and> (list_all (\<lambda>c. \<not> isWhiteSpace c) word \<longrightarrow> collapseSpaces word = word)
   \<and> normalizeVillainName (js ''  Venom (Eddie Brock),  '') = js ''Venom''
   \<and> normalizeVillainName (js ''Doctor Octopus,'') = js ''Doctor Octopus''
   \<and> normalizeVillainName (js ''Spider  Man'') = js ''Spider Man''
   \<and> removeParens (trim (js ''Green Goblin (Norman Osborn)'')) = js ''Green Goblin ''
   \<and> normalizeVillainName (js ''Green Goblin (Norman Osborn)'') = js ''Green Goblin''
   \<and> generateVillainId (js ''Green Goblin'') = js ''green-goblin''
   \<and> processVillainData now (RawData s (IssuesArray
        [\<lparr>issueNumber = Some 1, title = t,
          antagonists = [js ''Green Goblin (Norman Osborn)'']\<rparr>]))
     = Inr \<lparr>series = s, processedAt = now,
            villains =
              [\<lparr>villainId = js ''green-goblin'', names = [js ''Green Goblin''],
                firstAppearance = Some 1, appearances = [Some 1], frequency = 1\<rparr>],
            timeline =
              [\<lparr>issue = Some 1,
                villainsInIssue =
                  [\<lparr>villainId = js ''green-goblin'', names = [js ''Green Goblin''],
                    firstAppearance = Some 1, appearances = [Some 1], frequency = 1\<rparr>],
                villainCount = 1\<rparr>],
            stats =
              \<lparr>totalVillains = 1,
               mostFrequent =
                 \<lparr>villainId = js ''green-goblin'', names = [js ''Green Goblin''],
                  firstAppearance = Some 1, appearances = [Some 1], frequency = 1\<rparr>,
               averageFrequency = Finite 1,
               firstAppearances = [(Some 1, [Some (js ''Green Goblin'')])]\<rparr>\<rparr>"
  (is "?steps \<and> ?trim \<and> ?span \<and> ?plain \<and> ?strip \<and> ?run1 \<and> ?word \<and> ?venom \<and> ?octopus
       \<and> ?spider \<and> ?parens \<and> ?norm \<and> ?slug \<and> ?run = Inr ?out")
proof -
  let ?gg = "\<lparr>villainId = js ''green-goblin'', names = [js ''Green Goblin''],
              firstAppearance = Some 1, appearances = [Some 1], frequency = 1\<rparr>"
  let ?issues = "[\<lparr>issueNumber = Some 1, title = t,
          antagonists = [js ''Green Goblin (Norman Osborn)'']\<rparr>]"
  have steps: ?steps by (simp add: normalizeVillainName_def)
  have trim: ?trim using trim_exact by blast
  have span: ?span using removeParens_span by blast
  have plain: ?plain using removeParens_none by blast
  have strip: ?strip using stripTrailingPunct_exact by blast
  have run1: ?run1 using collapseSpaces_run by blast
  have word: ?word using collapseSpaces_none by blast
  have venom: ?venom by code_simp
  have octopus: ?octopus by code_simp
  have spider: ?spider by code_simp
  have parens: ?parens by code_simp
  have norm: ?norm by code_simp
  have slug: ?slug by code_simp
  have blank: "length (trim (js ''Green Goblin (Norman Osborn)'')) \<noteq> 0" by code_simp
  have full: "js ''Green Goblin'' \<noteq> []" by (simp add: js_def)
  have raw: "js ''Green Goblin (Norman Osborn)'' \<noteq> []" by (simp add: js_def)
  have b: "buildIndex ?issues = [(js ''Green Goblin'', ?gg)]"
    using blank full raw
    by (simp add: buildIndex_def addIssue_def addName_def Let_def norm slug)
  have so: "sortAll [(js ''Green Goblin'', ?gg)] = [(js ''Green Goblin'', ?gg)]"
    by (simp add: sortAll_def sortAppearances_def)
  have bs: "sortAll (buildIndex ?issues) = [(js ''Green Goblin'', ?gg)]"
    by (simp only: b so)
  have vs: "map snd [(js ''Green Goblin'', ?gg)] = [?gg]"
    by simp
  have tl: "generateTimeline ?issues [(js ''Green Goblin'', ?gg)] =
              [\<lparr>issue = Some 1, villainsInIssue = [?gg], villainCount = 1\<rparr>]"
    by (simp add: generateTimeline_def)
  have st: "generateStats [(js ''Green Goblin'', ?gg)] ?issues =
              \<lparr>totalVillains = 1, mostFrequent = ?gg, averageFrequency = Finite 1,
               firstAppearances = [(Some 1, [Some (js ''Green Goblin'')])]\<rparr>"
    by (simp add: generateStats_def jsDivide_def noteFirst_def first_def)
  have run: "?run = Inr ?out"
    by (simp only: processVillainData_array bs vs tl st)
  show ?thesis
    by (intro conjI) (fact steps trim span plain strip run1 word venom octopus spider parens
        norm slug run)+
qed

theorem normalizeVillainName_steps_witness:
  "trim (js ''  '' @ js ''Venom (Eddie Brock),'' @ js ''  '') = js ''Venom (Eddie Brock),''
   \<and> removeParens (js ''Venom '' @ 0x28 # js ''Eddie Brock'' @ 0x29 # js '','')
     = js ''Venom '' @ removeParens (js '','')
   \<and> removeParens (js '','') = js '',''
   \<and> stripTrailingPunct (js ''Venom '' @ js '','') = js ''Venom ''
   \<and> collapseSpaces (js ''Spider'' @ js ''  '' @ js ''Man'')
     = js ''Spider'' @ 0x20 # collapseSpaces (js ''Man'')
   \<and> collapseSpaces (js ''Man'') = js ''Man''"
proof -
  have h1: "list_all isWhiteSpace (js ''  '')" by code_simp
  have h2: "trimmed (js ''Venom (Eddie Brock),'')" by code_simp
  have h3: "0x28 \<notin> set (js ''Venom '')" "0x29 \<notin> set (js ''Eddie Brock'')" by code_simp+
  have h4: "\<not> hasSpan (js '','')" by code_simp
  have h5: "list_all isTrailingPunct (js '','')" "\<not> isTrailingPunct (last (js ''Venom ''))"
    by code_simp+
  have h6: "list_all (\<lambda>c. \<not> isWhiteSpace c) (js ''Spider'')" "js ''  '' \<noteq> []"
    "\<not> isWhiteSpace (hd (js ''Man''))" by code_simp+
  have h7: "list_all (\<lambda>c. \<not> isWhiteSpace c) (js ''Man'')" by code_simp
  note t = normalizeVillainName_steps
  show ?thesis
    using t [where pre = "js ''  ''" and body = "js ''Venom (Eddie Brock),''" and post = "js ''  ''"]
      t [where before = "js ''Venom ''" and inside = "js ''Eddie Brock''" and rest = "js '',''"]
      t [where plain = "js '',''"]
      t [where stem = "js ''Venom ''" and ending = "js '',''"]
      t [where word = "js ''Spider''" and run = "js ''  ''" and later = "js ''Man''"]
      t [where word = "js ''Man''"]
      h1 h2 h3 h4 h5 h6 h7
    by blast
qed

section \<open>The name of a list item\<close>

lemma navigationLink_not_qualifies: "navigationLink l \<Longrightarrow> \<not> qualifies (trim (textOf l))"
  by (auto simp: navigationLink_def qualifies_def)

lemma scanLinks_first:
  assumes "\<forall>l\<in>set before. \<not> qualifies (trim (textOf l))" and "qualifies (trim (textOf nameLink))"
  shows "scanLinks (before @ nameLink # after) = trim (textOf nameLink)"
  using assms by (induction before) (simp_all add: Let_def)

lemma scanLinks_none:
  "\<forall>l\<in>set ls. \<not> qualifies (trim (textOf l)) \<Longrightarrow> scanLinks ls = []"
  by (induction ls) (simp_all add: Let_def)

lemma realName_qualifies: "realName t \<Longrightarrow> qualifies t"
  by (auto simp: realName_def qualifies_def navOnly_def pointerRun_def isNavGlyph_def
      isPointerGlyph_def list_all_iff)

lemma scanElement_items: "scanElement found en = foldl pushItem found (itemsOfElement en)"
  by (cases en) (simp add: scanElement_def itemsOfElement_def Let_def)

lemma scanElements_items:
  "foldl scanElement found ens = foldl pushItem found (concat (map itemsOfElement ens))"
  by (induction ens arbitrary: found) (simp_all add: scanElement_items)

lemma scanSection_items: "scanSection found hs = foldl pushItem found (itemsOfSection hs)"
  by (cases hs) (simp add: scanSection_def itemsOfSection_def scanElements_items)

lemma scanSections_items:
  "foldl scanSection found hss = foldl pushItem found (concat (map itemsOfSection hss))"
  by (induction hss arbitrary: found) (simp_all add: scanSection_items)

lemma parse_visitedItems:
  "parseAntagonistsFromHtml document = foldl pushItem [] (visitedItems document)"
  by (simp add: parseAntagonistsFromHtml_def visitedItems_def scanSections_items)

lemma pushItem_keeps: "set found \<subseteq> set (pushItem found li)"
  by (auto simp: pushItem_def Let_def)

lemma pushItems_keep: "set found \<subseteq> set (foldl pushItem found items)"
proof (induction items arbitrary: found)
  case Nil
  then show ?case by simp
next
  case (Cons i rest)
  have "set found \<subseteq> set (pushItem found i)" by (rule pushItem_keeps)
  also have "\<dots> \<subseteq> set (foldl pushItem (pushItem found i) rest)" by (rule Cons.IH)
  finally show ?case by simp
qed

lemma pushed_name_in_output:
  assumes "li \<in> set items" and "\<And>found. pushItem found li = found @ [t]"
  shows "t \<in> set (foldl pushItem found items)"
  using assms(1)
proof (induction items arbitrary: found)
  case Nil
  then show ?case by simp
next
  case (Cons i rest)
  show ?case
  proof (cases "i = li")
    case True
    have "t \<in> set (pushItem found li)" by (simp add: assms(2))
    then show ?thesis using True pushItems_keep[of "pushItem found li" rest] by auto
  next
    case False
    then have "li \<in> set rest" using Cons.prems by simp
    from Cons.IH[OF this] show ?thesis by simp
  qed
qed

text \<open>
  Claim C1, as amended. Let the links of a list item be one or more navigation links, then
  a link with a real name, then any other links (the claim has one arrow link on each
  side). A navigation link is one whose trimmed text is at most one code unit long or
  consists of white space and the glyphs U+23F4, U+25C0, U+25B6, U+2192, U+2190, U+2191,
  U+2193. Then the name derived for the item is the trimmed text of the real-name link,
  it is not a run of pointer glyphs, and it is in the output of the Extractor for every
  document in which the Extractor visits the item.
\<close>

theorem real_name_between_navigation_links:
  assumes "findTag ''a'' li = before @ nameLink # after"
    and "before \<noteq> []"
    and "\<forall>l\<in>set before. navigationLink l"
    and "realName (trim (textOf nameLink))"
  shows "itemName li = trim (textOf nameLink)
         \<and> pushItem found li = found @ [trim (textOf nameLink)]
         \<and> \<not> pointerRun (itemName li)
         \<and> (li \<in> set (visitedItems document)
              \<longrightarrow> trim (textOf nameLink) \<in> set (parseAntagonistsFromHtml document))"
proof -
  let ?t = "trim (textOf nameLink)"
  from assms(2) obtain b bs where b: "before = b # bs" by (cases before) auto
  have skip: "\<forall>l\<in>set before. \<not> qualifies (trim (textOf l))"
    using assms(3) navigationLink_not_qualifies by blast
  have qual: "qualifies ?t" using assms(4) by (rule realName_qualifies)
  have "nameFromLinks li = scanLinks (before @ nameLink # after)"
    using assms(1) b by (cases bs) (simp_all add: nameFromLinks_def)
  then have n: "nameFromLinks li = ?t"
    using skip qual by (simp add: scanLinks_first)
  have q: "?t \<noteq> []" "length ?t > 1"
    using qual by (simp_all add: qualifies_def)
  have i: "itemName li = ?t"
    using n q by (simp add: itemName_def)
  have p: "pushItem acc li = acc @ [?t]" for acc
    using i q by (simp add: pushItem_def)
  have r: "\<not> pointerRun (itemName li)"
    using assms(4) i by (simp add: realName_def)
  have "?t \<in> set (parseAntagonistsFromHtml document)" if "li \<in> set (visitedItems document)"
    unfolding parse_visitedItems using that p by (rule pushed_name_in_output)
  then show ?thesis using i p r by blast
qed

theorem real_name_between_navigation_links_witness:
  "findTag ''a''
     (Element ''li''
             [Text [0x0A, 0x20], Element ''a'' [Text [0x23F4]],
              Text [0x0A, 0x20], Element ''a'' [Text (js ''Chameleon'')],
              Text [0x0A, 0x20], Element ''a'' [Text [0x23F5]],
              Text [0x0A, 0x20], Element ''span'' [Text (js ''(First appearance)'')]])
   = [Element ''a'' [Text [0x23F4]]] @ Element ''a'' [Text (js ''Chameleon'')]
       # [Element ''a'' [Text [0x23F5]]]
   \<and> navigationLink (Element ''a'' [Text [0x23F4]])
   \<and> navigationLink (Element ''a'' [Text [0x23F5]])
   \<and> realName (js ''Chameleon'')
   \<and> pushItem []
       (Element ''li''
             [Text [0x0A, 0x20], Element ''a'' [Text [0x23F4]],
              Text [0x0A, 0x20], Element ''a'' [Text (js ''Chameleon'')],
              Text [0x0A, 0x20], Element ''a'' [Text [0x23F5]],
              Text [0x0A, 0x20], Element ''span'' [Text (js ''(First appearance)'')]])
     = [js ''Chameleon'']
   \<and> visitedItems
       (Element ''body''
        [Element ''h2'' [Text (js ''Appearing in X'')],
         Element ''p'' [Element ''b'' [Text (js ''Antagonists:'')]],
         Element ''ul''
           [Element ''li''
             [Text [0x0A, 0x20], Element ''a'' [Text [0x23F4]],
              Text [0x0A, 0x20], Element ''a'' [Text (js ''Chameleon'')],
              Text [0x0A, 0x20], Element ''a'' [Text [0x23F5]],
              Text [0x0A, 0x20], Element ''span'' [Text (js ''(First appearance)'')]]]])
     = [Element ''li''
             [Text [0x0A, 0x20], Element ''a'' [Text [0x23F4]],
              Text [0x0A, 0x20], Element ''a'' [Text (js ''Chameleon'')],
              Text [0x0A, 0x20], Element ''a'' [Text [0x23F5]],
              Text [0x0A, 0x20], Element ''span'' [Text (js ''(First appearance)'')]]]
   \<and> parseAntagonistsFromHtml
       (Element ''body''
        [Element ''h2'' [Text (js ''Appearing in X'')],
         Element ''p'' [Element ''b'' [Text (js ''Antagonists:'')]],
         Element ''ul''
           [Element ''li''
             [Text [0x0A, 0x20], Element ''a'' [Text [0x23F4]],
              Text [0x0A, 0x20], Element ''a'' [Text (js ''Chameleon'')],
              Text [0x0A, 0x20], Element ''a'' [Text [0x23F5]],
              Text [0x0A, 0x20], Element ''span'' [Text (js ''(First appearance)'')]]]])
     = [js ''Chameleon'']"
  (is "findTag ''a'' ?li = [?prev] @ ?name # [?next] \<and> _ \<and> _ \<and> _ \<and> _
       \<and> visitedItems ?page = _ \<and> ?doc")
proof -
  have links: "findTag ''a'' ?li = [?prev] @ ?name # [?next]"
    by code_simp
  have prev: "navigationLink ?prev"
    by code_simp
  have nxt: "navigationLink ?next"
    by code_simp
  have t: "trim (textOf ?name) = js ''Chameleon''"
    by code_simp
  have q: "realName (js ''Chameleon'')"
    by code_simp
  have navs: "\<forall>l\<in>set [?prev]. navigationLink l"
    using prev by simp
  have ne: "[?prev] \<noteq> []"
    by simp
  have rn: "realName (trim (textOf ?name))"
    using q t by simp
  have visits: "visitedItems ?page = [?li]"
    by code_simp
  have doc: ?doc
    by code_simp
  show ?thesis
    using real_name_between_navigation_links [OF links ne navs rn, of "[]" ?page]
      links prev nxt q t visits doc
    by simp
qed

text \<open>
  Claim C1 as stated fails for an arrow of a style that the source does not list. The
  links around "Chameleon" hold U+1F850 and U+1F852 (leftwards and rightwards sans-serif
  arrow), each one glyph and two code units, a surrogate pair. The first link passes the
  test of the scan, and the arrow is returned in place of the name.
\<close>

theorem arrow_of_another_style_returned:
  "pushItem []
     (Element ''li''
             [Element ''a'' [Text [0xD83E, 0xDC50]],
              Element ''a'' [Text (js ''Chameleon'')],
              Element ''a'' [Text [0xD83E, 0xDC52]]])
   = [[0xD83E, 0xDC50]]
   \<and> parseAntagonistsFromHtml
       (Element ''body''
        [Element ''h2'' [Text (js ''Appearing in X'')],
         Element ''p'' [Element ''b'' [Text (js ''Antagonists:'')]],
         Element ''ul''
           [Element ''li''
             [Element ''a'' [Text [0xD83E, 0xDC50]],
              Element ''a'' [Text (js ''Chameleon'')],
              Element ''a'' [Text [0xD83E, 0xDC52]]]]])
     = [[0xD83E, 0xDC50]]"
  by code_simp

text \<open>
  The character class of the scan lists U+23F4 and leaves out its partner U+23F5. A link
  that holds a run of U+23F5 is neither a navigation link nor a real name in the sense
  above, and the scan takes it for the name.
\<close>

lemma run_of_omitted_glyph_is_taken:
  "\<not> navigationLink (Element ''a'' [Text [0x23F5, 0x23F5]])
   \<and> \<not> realName [0x23F5, 0x23F5]
   \<and> pushItem []
       (Element ''li''
             [Element ''a'' [Text [0x23F4]],
              Element ''a'' [Text [0x23F5, 0x23F5]],
              Element ''a'' [Text (js ''Chameleon'')],
              Element ''a'' [Text [0x23F5]]])
     = [[0x23F5, 0x23F5]]"
  by code_simp

text \<open>
  When the links leave the name empty (the item has no link, or one link whose trimmed
  text is empty, or several links none of which passes the test of the scan), the item
  falls back to its own text up to the first line feed, trimmed.
\<close>

lemma fallback_when_name_is_empty:
  assumes "case findTag ''a'' li of
             [] \<Rightarrow> True
           | [l] \<Rightarrow> trim (textOf l) = []
           | l # l' # ls \<Rightarrow> \<forall>x\<in>set (l # l' # ls). \<not> qualifies (trim (textOf x))"
  shows "pushItem found li =
           (if length (firstLine li) > 1 \<and> \<not> navOnly (firstLine li)
            then found @ [firstLine li] else found)"
proof -
  have n: "nameFromLinks li = []"
  proof (cases "findTag ''a'' li")
    case Nil
    then show ?thesis by (simp add: nameFromLinks_def)
  next
    case (Cons a as)
    show ?thesis
    proof (cases as)
      case Nil
      then show ?thesis using assms Cons by (simp add: nameFromLinks_def)
    next
      case (Cons a' as')
      with \<open>findTag ''a'' li = a # as\<close> assms
      have "\<forall>x\<in>set (a # a' # as'). \<not> qualifies (trim (textOf x))" by simp
      then have "scanLinks (a # a' # as') = []" by (rule scanLinks_none)
      then show ?thesis using Cons \<open>findTag ''a'' li = a # as\<close>
        by (simp add: nameFromLinks_def)
    qed
  qed
  show ?thesis
    using n by (auto simp: pushItem_def itemName_def Let_def)
qed

text \<open>
  Claim C4. When no link of a list item yields a qualifying name, the item falls back to
  its own text up to the first line feed, trimmed, and yields it if it passes the filter.
  The source misses this at an item with exactly one link whose trimmed text is one
  character, here a footnote mark after the name in plain text: the link yields no
  qualifying name and the text of the item passes the filter of the fallback, yet the
  item yields nothing, for the fallback is guarded by the name being empty, while a name
  counts only if it is longer than one code unit. With a second link of the same kind
  the scan leaves the name empty, and the item does fall back.
\<close>

theorem single_short_link_blocks_fallback:
  "findTag ''a'' (Element ''li'' [Text (js ''Vulture ''), Element ''a'' [Text (js ''*'')]])
     = [Element ''a'' [Text (js ''*'')]]
   \<and> \<not> qualifies (trim (textOf (Element ''a'' [Text (js ''*'')])))
   \<and> firstLine (Element ''li'' [Text (js ''Vulture ''), Element ''a'' [Text (js ''*'')]])
     = js ''Vulture *''
   \<and> length (js ''Vulture *'') > 1
   \<and> \<not> navOnly (js ''Vulture *'')
   \<and> pushItem [] (Element ''li'' [Text (js ''Vulture ''), Element ''a'' [Text (js ''*'')]])
     = []
   \<and> parseAntagonistsFromHtml
       (Element ''body''
        [Element ''h2'' [Text (js ''Appearing in X'')],
         Element ''p'' [Element ''b'' [Text (js ''Antagonists:'')]],
         Element ''ul''
           [Element ''li'' [Text (js ''Vulture ''), Element ''a'' [Text (js ''*'')]]]])
     = []
   \<and> pushItem []
       (Element ''li'' [Text (js ''Vulture ''), Element ''a'' [Text (js ''*'')], Element ''a'' [Text (js ''+'')]])
     = [js ''Vulture *+'']"
  by code_simp

end
